theory Spec2Isabelle
  imports Complex_Main "HOL-Library.Sublist"
begin

section \<open>Shared data model\<close>

text \<open>
  The shape \<open>Issue\<close> of \<open>types/common.ts\<close>: a typed, prioritised message.
\<close>

datatype issue_type = IssueError | IssueWarning | IssueSuccess | IssueInfo

datatype issue_priority = High | Medium | Low

record issue =
  itype :: issue_type
  message :: string
  priority :: issue_priority
  category :: string

datatype page_status = Success | Failed

text \<open>
  \<open>SitemapUrl\<close> of \<open>types/sitemap.ts\<close>, with the fields that \<open>analyzeSitemap\<close> fills.
\<close>

record SitemapUrl =
  su_url :: string
  su_lastModified :: "string option"
  su_isLowValue :: bool

text \<open>
  \<open>SitemapAnalysis\<close> of \<open>types/sitemap.ts\<close>, with the fields that \<open>analyzeSitemap\<close>
  returns (the wall-clock \<open>responseTime\<close> is left out). The optional field
  \<open>truncated\<close> of the interface is never assigned by the code; it is kept as an option
  that stays \<open>None\<close>.
\<close>

record SitemapAnalysis =
  sm_exists :: bool
  sm_accessible :: bool
  sm_isValidXml :: bool
  sm_totalUrls :: nat
  sm_urls :: "SitemapUrl list"
  sm_childSitemaps :: "string list"
  sm_issues :: "issue list"
  sm_lastModified :: "string option"
  sm_isCompressed :: bool
  sm_lowValueUrls :: nat
  sm_truncated :: "bool option"

text \<open>The error codes of \<open>errors/index.ts\<close> and the type \<open>ERROR_DEFINITIONS\<close> gives each.\<close>

datatype ErrorCode =
  URL_REQUIRED | URL_INVALID_FORMAT | URL_PROTOCOL_MISSING | URL_TOO_LONG
  | FETCH_FAILED | CONNECTION_TIMEOUT | DNS_RESOLUTION_FAILED | SSL_ERROR
  | HTTP_404 | HTTP_403 | HTTP_500 | HTTP_502 | HTTP_503
  | EMPTY_RESPONSE | PAGE_TOO_LARGE | CONTENT_PARSING_FAILED | ANALYZER_FAILED
  | CONFIG_INVALID | CACHE_ERROR | INTERNAL_ERROR

datatype SEOErrorType =
  SEO_validation | SEO_network | SEO_timeout | SEO_url_format | SEO_analysis
  | SEO_config | SEO_cache | SEO_unknown

fun definitionType :: "ErrorCode \<Rightarrow> SEOErrorType" where
  "definitionType URL_REQUIRED = SEO_validation"
| "definitionType URL_INVALID_FORMAT = SEO_validation"
| "definitionType URL_PROTOCOL_MISSING = SEO_validation"
| "definitionType URL_TOO_LONG = SEO_validation"
| "definitionType FETCH_FAILED = SEO_network"
| "definitionType CONNECTION_TIMEOUT = SEO_timeout"
| "definitionType DNS_RESOLUTION_FAILED = SEO_network"
| "definitionType SSL_ERROR = SEO_network"
| "definitionType HTTP_404 = SEO_network"
| "definitionType HTTP_403 = SEO_network"
| "definitionType HTTP_500 = SEO_network"
| "definitionType HTTP_502 = SEO_network"
| "definitionType HTTP_503 = SEO_network"
| "definitionType EMPTY_RESPONSE = SEO_analysis"
| "definitionType PAGE_TOO_LARGE = SEO_analysis"
| "definitionType CONTENT_PARSING_FAILED = SEO_analysis"
| "definitionType ANALYZER_FAILED = SEO_analysis"
| "definitionType CONFIG_INVALID = SEO_config"
| "definitionType CACHE_ERROR = SEO_cache"
| "definitionType INTERNAL_ERROR = SEO_unknown"

text \<open>
  \<open>CompleteAnalysisResult\<close>, restricted to the fields the crawl route
  \<open>pages/api/analyze-unified.ts\<close> reads: the page URL, its status, the error type and
  code of a failed page, \<open>performance.seoScore\<close>, the issue list, \<open>technical.sitemap\<close> and
  \<open>links.internalUrls\<close>.
\<close>

record CompleteAnalysisResult =
  res_url :: string
  res_status :: page_status
  res_errorType :: "SEOErrorType option"
  res_errorCode :: "ErrorCode option"
  res_seoScore :: int
  res_issues :: "issue list"
  res_sitemap :: "SitemapAnalysis option"
  res_internalUrls :: "string list"

section \<open>Retry wrapper (\<open>errors/enhanced-error-handler.ts\<close>)\<close>

datatype ErrorType =
  NETWORK | VALIDATION | PARSING | TIMEOUT | RATE_LIMIT | PERMISSION
  | NOT_FOUND | CONFIGURATION | ANALYSIS | UNKNOWN

text \<open>\<open>ErrorHandler.isRetryable\<close>: network, timeout and rate-limit errors only.\<close>

fun isRetryable :: "ErrorType \<Rightarrow> bool" where
  "isRetryable NETWORK = True"
| "isRetryable TIMEOUT = True"
| "isRetryable RATE_LIMIT = True"
| "isRetryable _ = False"

text \<open>
  An \<open>EnhancedError\<close> as \<open>ErrorHandler.handle\<close> returns it: the type, the message and
  the \<open>retryable\<close> flag.
\<close>

record EnhancedError =
  err_type :: ErrorType
  err_message :: string
  err_retryable :: bool

text \<open>
  One run of an asynchronous operation either resolves with a value or rejects with
  an error (given here in the enhanced form \<open>handle\<close> turns it into).
\<close>

datatype 'a attempt = Resolves 'a | Rejects EnhancedError

text \<open>
  \<open>ErrorHandler.handleAsync\<close> without a fallback (the route passes none): the loop
  \<open>for (attempt = 0; attempt <= retries; attempt++)\<close>. The operation is a function of
  the attempt number; \<open>left\<close> is \<open>retries - attempt\<close>. A rejection stops the loop when
  the error is not retryable or the last attempt was used, and the last error is thrown.
\<close>

fun handleAsync_loop :: "(nat \<Rightarrow> 'a attempt) \<Rightarrow> nat \<Rightarrow> nat \<Rightarrow> EnhancedError + 'a" where
  "handleAsync_loop operation attempt 0 =
     (case operation attempt of
        Resolves v \<Rightarrow> Inr v
      | Rejects e \<Rightarrow> Inl e)"
| "handleAsync_loop operation attempt (Suc left) =
     (case operation attempt of
        Resolves v \<Rightarrow> Inr v
      | Rejects e \<Rightarrow>
          if \<not> err_retryable e then Inl e
          else handleAsync_loop operation (Suc attempt) left)"

definition handleAsync :: "(nat \<Rightarrow> 'a attempt) \<Rightarrow> nat \<Rightarrow> EnhancedError + 'a" where
  "handleAsync operation retries = handleAsync_loop operation 0 retries"

section \<open>Batch concurrency controller (\<open>analyze-unified.ts\<close>, lines 209-243)\<close>

text \<open>\<open>Array.prototype.slice(i, j)\<close> for \<open>0 \<le> i \<le> j\<close>.\<close>

definition slice :: "nat \<Rightarrow> nat \<Rightarrow> 'a list \<Rightarrow> 'a list" where
  "slice i j xs = take (j - i) (drop i xs)"

definition BATCH_SIZE :: nat where
  "BATCH_SIZE = 5"

text \<open>
  The loop \<open>for (let i = 0; i < urlsToAnalyze.length; i += BATCH_SIZE)
  batches.push(urlsToAnalyze.slice(i, i + BATCH_SIZE))\<close>, from index \<open>i\<close>.
\<close>

function batches_from :: "nat \<Rightarrow> 'a list \<Rightarrow> 'a list list" where
  "batches_from i urlsToAnalyze =
     (if i < length urlsToAnalyze
      then slice i (i + BATCH_SIZE) urlsToAnalyze # batches_from (i + BATCH_SIZE) urlsToAnalyze
      else [])"
  by pat_completeness auto
termination
  by (relation "measure (\<lambda>(i, xs). length xs - i)") (auto simp: BATCH_SIZE_def)

declare batches_from.simps [simp del]

definition make_batches :: "'a list \<Rightarrow> 'a list list" where
  "make_batches urlsToAnalyze = batches_from 0 urlsToAnalyze"

text \<open>
  The page analysis is the environment of the route: \<open>analyzePage url isMainPage\<close>, run
  for the \<open>k\<close>-th time, resolves with a result or rejects.
\<close>

type_synonym page_analyzer = "string \<Rightarrow> bool \<Rightarrow> nat \<Rightarrow> CompleteAnalysisResult attempt"

text \<open>
  The object the route substitutes for a rejected internal page
  (\<open>result.status === 'fulfilled' ? result.value : {...}\<close>). Fields the object literal
  does not set are absent in the source; here they hold the empty value.
\<close>

definition failedInternal :: "string \<Rightarrow> CompleteAnalysisResult" where
  "failedInternal u =
     \<lparr> res_url = u, res_status = Failed,
       res_errorType = Some SEO_analysis, res_errorCode = None,
       res_seoScore = 0, res_issues = [], res_sitemap = None, res_internalUrls = [] \<rparr>"

text \<open>
  One element of \<open>Promise.allSettled(batch.map(...))\<close> after the \<open>.then\<close>: the page
  analysis under \<open>handleAsync\<close> with \<open>retries: 1\<close>.
\<close>

definition settleInternal :: "page_analyzer \<Rightarrow> string \<Rightarrow> CompleteAnalysisResult" where
  "settleInternal analyzePage internalUrl =
     (case handleAsync (analyzePage internalUrl False) 1 of
        Inr v \<Rightarrow> v
      | Inl e \<Rightarrow> failedInternal internalUrl)"

text \<open>
  \<open>for (const batch of batches) { ...; allResults.push(...batchResults) }\<close>: the batches
  are awaited one after the other, and each batch's results are appended, in the batch's
  order, before the next batch starts.
\<close>

fun processBatches ::
  "page_analyzer \<Rightarrow> string list list \<Rightarrow> CompleteAnalysisResult list \<Rightarrow> CompleteAnalysisResult list" where
  "processBatches analyzePage [] allResults = allResults"
| "processBatches analyzePage (batch # rest) allResults =
     processBatches analyzePage rest (allResults @ map (settleInternal analyzePage) batch)"

text \<open>The \<open>if (urlsToAnalyze.length > 0)\<close> block as a whole.\<close>

definition analyzeInternal ::
  "page_analyzer \<Rightarrow> string list \<Rightarrow> CompleteAnalysisResult list \<Rightarrow> CompleteAnalysisResult list" where
  "analyzeInternal analyzePage urlsToAnalyze allResults =
     (if length urlsToAnalyze > 0
      then processBatches analyzePage (make_batches urlsToAnalyze) allResults
      else allResults)"

text \<open>
  A URL's analysis fails after its retries when the retry wrapper ends in a rejection, or
  resolves with a result whose status is \<open>failed\<close>.
\<close>

definition failsAfterRetries :: "page_analyzer \<Rightarrow> string \<Rightarrow> bool" where
  "failsAfterRetries analyzePage u =
     (case handleAsync (analyzePage u False) 1 of
        Inl e \<Rightarrow> True
      | Inr v \<Rightarrow> res_status v = Failed)"

text \<open>
  A frontier of twelve URLs and a page analyzer for it: the page \<open>c\<close> rejects with a
  timeout at every attempt, the page \<open>h\<close> resolves with a failed result, every other
  page resolves with a successful result.
\<close>

definition frontier12 :: "string list" where
  "frontier12 = [''a'', ''b'', ''c'', ''d'', ''e'', ''f'', ''g'', ''h'', ''i'', ''j'', ''k'', ''l'']"

definition pageResult :: "string \<Rightarrow> page_status \<Rightarrow> CompleteAnalysisResult" where
  "pageResult u st =
     \<lparr> res_url = u, res_status = st, res_errorType = None,
       res_errorCode = None, res_seoScore = 80, res_issues = [], res_sitemap = None,
       res_internalUrls = [] \<rparr>"

definition timeoutError :: EnhancedError where
  "timeoutError = \<lparr> err_type = TIMEOUT, err_message = ''timeout'', err_retryable = True \<rparr>"

definition analyzer12 :: page_analyzer where
  "analyzer12 u isMainPage k =
     (if u = ''c'' then Rejects timeoutError
      else if u = ''h'' then Resolves (pageResult u Failed)
      else Resolves (pageResult u Success))"

subsection \<open>Properties of the batch loop\<close>

lemma batches_from_step:
  "i < length xs \<Longrightarrow> batches_from i xs = take 5 (drop i xs) # batches_from (i + 5) xs"
  by (subst batches_from.simps) (simp add: slice_def BATCH_SIZE_def)

lemma batches_from_stop: "\<not> i < length xs \<Longrightarrow> batches_from i xs = []"
  by (subst batches_from.simps) simp

lemma batches_from_concat: "concat (batches_from i xs) = drop i xs"
proof (induction i xs rule: batches_from.induct)
  case (1 i xs)
  show ?case
  proof (cases "i < length xs")
    case True
    have "concat (batches_from i xs) = take 5 (drop i xs) @ drop 5 (drop i xs)"
      using True 1 by (simp add: batches_from_step BATCH_SIZE_def add.commute)
    then show ?thesis by (simp only: append_take_drop_id)
  next
    case False
    then show ?thesis by (simp add: batches_from_stop)
  qed
qed

lemma ceil_step:
  fixes m k :: nat
  assumes "0 < m" "m - 5 \<le> 5 * k" "5 * k < m - 5 + 5"
  shows "m \<le> 5 * Suc k \<and> 5 * Suc k < m + 5"
proof (cases "m < 5")
  case True
  with assms have "k = 0" by simp
  with True assms show ?thesis by simp
next
  case False
  with assms show ?thesis by simp
qed

lemma batches_from_bounds:
  "length xs - i \<le> 5 * length (batches_from i xs) \<and>
   5 * length (batches_from i xs) < length xs - i + 5"
proof (induction i xs rule: batches_from.induct)
  case (1 i xs)
  show ?case
  proof (cases "i < length xs")
    case True
    have len: "length (batches_from i xs) = Suc (length (batches_from (i + 5) xs))"
      using True by (simp add: batches_from_step)
    have ih: "length xs - i - 5 \<le> 5 * length (batches_from (i + 5) xs)"
      "5 * length (batches_from (i + 5) xs) < length xs - i - 5 + 5"
      using True 1 by (simp_all add: BATCH_SIZE_def)
    have "0 < length xs - i" using True by simp
    from ceil_step [OF this ih] show ?thesis by (simp only: len)
  next
    case False
    then show ?thesis by (simp add: batches_from_stop)
  qed
qed

lemma batches_from_length: "length (batches_from i xs) = (length xs - i + 4) div 5"
proof -
  have "(length xs - i + 4) div 5 = length (batches_from i xs)"
    using batches_from_bounds [of xs i] by (intro div_nat_eqI) simp_all
  then show ?thesis by simp
qed

lemma batches_from_sizes:
  "list_all (\<lambda>b. 0 < length b \<and> length b \<le> 5) (batches_from i xs)"
proof (induction i xs rule: batches_from.induct)
  case (1 i xs)
  show ?case
  proof (cases "i < length xs")
    case True
    then show ?thesis using 1 by (simp add: batches_from_step BATCH_SIZE_def)
  next
    case False
    then show ?thesis by (simp add: batches_from_stop)
  qed
qed

lemma batches_from_nth:
  "k < length (batches_from i xs) \<Longrightarrow> batches_from i xs ! k = take 5 (drop (i + 5 * k) xs)"
proof (induction i xs arbitrary: k rule: batches_from.induct)
  case (1 i xs)
  show ?case
  proof (cases "i < length xs")
    case True
    show ?thesis
    proof (cases k)
      case 0
      then show ?thesis using True by (simp add: batches_from_step)
    next
      case (Suc j)
      then have "j < length (batches_from (i + 5) xs)"
        using "1.prems" True by (simp add: batches_from_step)
      then have "batches_from (i + 5) xs ! j = take 5 (drop (i + 5 + 5 * j) xs)"
        using "1.IH" True by (simp add: BATCH_SIZE_def)
      then show ?thesis using True Suc by (simp add: batches_from_step add.assoc)
    qed
  next
    case False
    then show ?thesis using "1.prems" by (simp add: batches_from_stop)
  qed
qed

lemma processBatches_append:
  "processBatches analyzePage bs acc = acc @ map (settleInternal analyzePage) (concat bs)"
  by (induction bs arbitrary: acc) auto

lemma analyzeInternal_append:
  "analyzeInternal analyzePage urls acc = acc @ map (settleInternal analyzePage) urls"
  by (simp add: analyzeInternal_def processBatches_append make_batches_def batches_from_concat)

lemma settleInternal_failed:
  "failsAfterRetries analyzePage u \<Longrightarrow> res_status (settleInternal analyzePage u) = Failed"
  by (auto simp: failsAfterRetries_def settleInternal_def failedInternal_def split: sum.splits)

lemma settleInternal_resolved:
  "handleAsync (analyzePage u False) 1 = Inr v \<Longrightarrow> settleInternal analyzePage u = v"
  by (simp add: settleInternal_def)

lemma twelve_batches: "length xs = 12 \<Longrightarrow> map length (make_batches xs) = [5, 5, 2]"
  by (simp add: make_batches_def batches_from_step batches_from_stop)

text \<open>
  Claim C9. The frontier of \<open>n\<close> URLs is cut into \<open>ceil(n/5)\<close> consecutive batches of
  at most five URLs, in frontier order (the \<open>k\<close>-th batch is the slice from \<open>5k\<close>; twelve
  URLs give the sizes 5, 5, 2). The batches are processed one after the other, each
  appending its results to \<open>allResults\<close>, so the output holds one result per frontier
  URL in frontier order; a URL whose analysis fails after its retries contributes a
  result with status \<open>Failed\<close>, and a URL whose analysis resolves contributes exactly
  the resolved result, whatever happens to the other URLs.
\<close>

theorem batch_controller:
  "length (make_batches urls) = (length urls + 4) div 5
   \<and> concat (make_batches urls) = urls
   \<and> list_all (\<lambda>b. 0 < length b \<and> length b \<le> 5) (make_batches urls)
   \<and> (\<forall>k < length (make_batches urls). make_batches urls ! k = slice (5 * k) (5 * k + 5) urls)
   \<and> (length urls = 12 \<longrightarrow> map length (make_batches urls) = [5, 5, 2])
   \<and> analyzeInternal analyzePage urls allResults
       = allResults @ map (settleInternal analyzePage) urls
   \<and> (\<forall>u. failsAfterRetries analyzePage u
          \<longrightarrow> res_status (settleInternal analyzePage u) = Failed)
   \<and> (\<forall>u v. handleAsync (analyzePage u False) 1 = Inr v
          \<longrightarrow> settleInternal analyzePage u = v)"
proof -
  have "length (make_batches urls) = (length urls + 4) div 5"
    using batches_from_length [of 0 urls] by (simp add: make_batches_def)
  moreover have "concat (make_batches urls) = urls"
    by (simp add: make_batches_def batches_from_concat)
  moreover have "list_all (\<lambda>b. 0 < length b \<and> length b \<le> 5) (make_batches urls)"
    unfolding make_batches_def by (rule batches_from_sizes)
  moreover have "\<forall>k < length (make_batches urls).
      make_batches urls ! k = slice (5 * k) (5 * k + 5) urls"
    using batches_from_nth [of _ 0 urls] by (simp add: make_batches_def slice_def)
  moreover have "length urls = 12 \<longrightarrow> map length (make_batches urls) = [5, 5, 2]"
    using twelve_batches by blast
  ultimately show ?thesis
    using analyzeInternal_append settleInternal_failed settleInternal_resolved by blast
qed

theorem batch_controller_witness:
  "length frontier12 = 12
   \<and> map length (make_batches frontier12) = [5, 5, 2]
   \<and> failsAfterRetries analyzer12 ''c''
   \<and> failsAfterRetries analyzer12 ''h''
   \<and> handleAsync (analyzer12 ''d'' False) 1 = Inr (pageResult ''d'' Success)
   \<and> map res_status (analyzeInternal analyzer12 frontier12 []) =
       [Success, Success, Failed, Success, Success, Success, Success, Failed,
        Success, Success, Success, Success]
   \<and> map res_url (analyzeInternal analyzer12 frontier12 []) = frontier12"
proof -
  have len: "length frontier12 = 12" by (simp add: frontier12_def)
  have c: "failsAfterRetries analyzer12 ''c''"
    by (simp add: failsAfterRetries_def handleAsync_def analyzer12_def timeoutError_def)
  have h: "failsAfterRetries analyzer12 ''h''"
    by (simp add: failsAfterRetries_def handleAsync_def analyzer12_def pageResult_def)
  have d: "handleAsync (analyzer12 ''d'' False) 1 = Inr (pageResult ''d'' Success)"
    by (simp add: handleAsync_def analyzer12_def)
  have ok: "\<And>u. u \<noteq> ''c'' \<Longrightarrow> u \<noteq> ''h''
      \<Longrightarrow> handleAsync (analyzer12 u False) 1 = Inr (pageResult u Success)"
    by (simp add: handleAsync_def analyzer12_def)
  note bc = batch_controller [of frontier12 analyzer12 "[]"]
  have sizes: "map length (make_batches frontier12) = [5, 5, 2]"
    using bc len by blast
  have out: "analyzeInternal analyzer12 frontier12 [] = map (settleInternal analyzer12) frontier12"
    using bc by simp
  have fc: "res_status (settleInternal analyzer12 ''c'') = Failed" using bc c by blast
  have fh: "res_status (settleInternal analyzer12 ''h'') = Failed" using bc h by blast
  have rs: "\<And>u. u \<noteq> ''c'' \<Longrightarrow> u \<noteq> ''h''
      \<Longrightarrow> settleInternal analyzer12 u = pageResult u Success"
    using bc ok by blast
  have st: "map res_status (analyzeInternal analyzer12 frontier12 []) =
       [Success, Success, Failed, Success, Success, Success, Success, Failed,
        Success, Success, Success, Success]"
    by (subst out) (simp add: frontier12_def fc fh rs pageResult_def)
  have uc: "res_url (settleInternal analyzer12 ''c'') = ''c''"
    by (simp add: settleInternal_def handleAsync_def analyzer12_def failedInternal_def
        timeoutError_def)
  have uh: "res_url (settleInternal analyzer12 ''h'') = ''h''"
    by (simp add: settleInternal_def handleAsync_def analyzer12_def pageResult_def)
  have ur: "map res_url (analyzeInternal analyzer12 frontier12 []) = frontier12"
    by (subst out) (simp add: frontier12_def uc uh rs pageResult_def)
  show ?thesis using len sizes c h d st ur by simp
qed



section \<open>Page analysis orchestrator (\<open>orchestrator/seo-analysis-orchestrator.ts\<close>)\<close>

text \<open>
  The value an analyzer leaves in \<open>result.score\<close> is untyped (\<open>any\<close>): a finite
  number, \<open>NaN\<close>, an infinity, or no number at all (\<open>undefined\<close>, a string, ...).
  Finite numbers are modelled as reals: the rounding error of the IEEE doubles of the
  source is not part of the model.
\<close>

datatype jsvalue = JNum real | JNaN | JPosInf | JNegInf | JNotNumber

text \<open>\<open>validateScore\<close>: anything but a finite number becomes 0; a finite number is clamped.\<close>

fun validateScore :: "jsvalue \<Rightarrow> real" where
  "validateScore (JNum x) = max 0 (min 100 x)"
| "validateScore _ = 0"

text \<open>\<open>isValidScore\<close>: a number that is neither \<open>NaN\<close> nor infinite.\<close>

fun isValidScore :: "jsvalue \<Rightarrow> bool" where
  "isValidScore (JNum x) = True"
| "isValidScore _ = False"

text \<open>\<open>Math.round\<close> on a finite number: the nearest integer, halves rounded up.\<close>

definition Math_round :: "real \<Rightarrow> int" where
  "Math_round x = \<lfloor>x + 1 / 2\<rfloor>"

text \<open>
  The \<open>data\<close> record of an analyzer, restricted to what the orchestrator and the crawl
  route read from it: \<open>data.issues\<close> (absent from the E-A-T record),
  \<open>links.internalUrls\<close> and \<open>technical.sitemap\<close>.
\<close>

record analyzer_data =
  data_issues :: "issue list option"
  data_internalUrls :: "string list"
  data_sitemap :: "SitemapAnalysis option"

text \<open>\<open>AnalysisResult\<close>: what \<open>analyzer.analyze(context)\<close> resolves with.\<close>

record AnalysisResult =
  ar_score :: jsvalue
  ar_issues :: "issue list"
  ar_data :: "analyzer_data option"

text \<open>
  A run of an analyzer returns a result or throws; of the thrown error the orchestrator
  uses the \<open>userMessage\<close> that \<open>createErrorFromException\<close> derives from it.
\<close>

datatype analyzer_run = Returns AnalysisResult | Throws string

record AnalysisContext =
  ctx_url :: string
  ctx_html :: string
  ctx_status :: nat
  ctx_loadTime :: nat
  ctx_isMainPage :: bool

type_synonym analyzer = "AnalysisContext \<Rightarrow> analyzer_run"

text \<open>
  \<open>getDefaultAnalyzerData\<close>: a record of empty values for the eleven default analyzers
  (the E-A-T record has no \<open>issues\<close> field), \<open>null\<close> for any other name.
\<close>

definition defaultNames :: "string list" where
  "defaultNames = [''title'', ''description'', ''headings'', ''technical'', ''images'',
     ''keywords'', ''performance'', ''links'', ''mobile'', ''security'', ''eat'']"

definition getDefaultAnalyzerData :: "string \<Rightarrow> analyzer_data option" where
  "getDefaultAnalyzerData analyzerName =
     (if analyzerName = ''eat''
      then Some \<lparr> data_issues = None, data_internalUrls = [], data_sitemap = None \<rparr>
      else if analyzerName \<in> set defaultNames
      then Some \<lparr> data_issues = Some [], data_internalUrls = [], data_sitemap = None \<rparr>
      else None)"

text \<open>
  The issue of the \<open>catch\<close> branch of \<open>performAnalysis\<close>. (The source's message
  reads \<open>Error en an\'alisis de\<close>; the accent is dropped here.)
\<close>

definition analyzerErrorIssue :: "string \<Rightarrow> string \<Rightarrow> issue" where
  "analyzerErrorIssue name userMessage =
     \<lparr> itype = IssueError,
       message = ''Error en analisis de '' @ name @ '': '' @ userMessage,
       priority = High,
       category = ''technical'' \<rparr>"

text \<open>
  One element of \<open>analysisPromises\<close>: the analyzer's result with its score validated, or
  the substitute of the \<open>catch\<close> branch.
\<close>

definition runAnalyzer :: "AnalysisContext \<Rightarrow> string \<times> analyzer \<Rightarrow> string \<times> AnalysisResult" where
  "runAnalyzer context entry =
     (case entry of (name, analyzer) \<Rightarrow>
        (case analyzer context of
           Returns result \<Rightarrow> (name, result\<lparr> ar_score := JNum (validateScore (ar_score result)) \<rparr>)
         | Throws userMessage \<Rightarrow>
             (name, \<lparr> ar_score = JNum 0,
                      ar_issues = [analyzerErrorIssue name userMessage],
                      ar_data = getDefaultAnalyzerData name \<rparr>)))"

text \<open>The weight table of \<open>combineAnalysisResults\<close>, in the order of the object literal.\<close>

definition weights :: "(string \<times> real) list" where
  "weights =
     [(''title'', 0.15), (''description'', 0.11), (''headings'', 0.11), (''technical'', 0.11),
      (''keywords'', 0.11), (''eat'', 0.14), (''mobile'', 0.10), (''images'', 0.07),
      (''security'', 0.07), (''performance'', 0.04), (''links'', 0.02)]"

text \<open>
  \<open>new Map(results.map(r => [r.name, r.result]))\<close>: a later entry of the same name
  replaces an earlier one.
\<close>

definition resultMapOf :: "(string \<times> AnalysisResult) list \<Rightarrow> (string \<rightharpoonup> AnalysisResult)" where
  "resultMapOf results = map_of (rev results)"

text \<open>The number a validated score stands for; only read where \<open>isValidScore\<close> holds.\<close>

fun numberOf :: "jsvalue \<Rightarrow> real" where
  "numberOf (JNum x) = x"
| "numberOf _ = 0"

text \<open>
  The body of \<open>Object.entries(weights).forEach\<close>, on the accumulator
  \<open>(overallScore, totalWeight, validAnalyzers)\<close>.
\<close>

definition accumulate ::
  "(string \<rightharpoonup> AnalysisResult) \<Rightarrow> string \<times> real \<Rightarrow> real \<times> real \<times> nat \<Rightarrow> real \<times> real \<times> nat" where
  "accumulate resultMap entry acc =
     (case entry of (name, weight) \<Rightarrow>
      case acc of (overallScore, totalWeight, validAnalyzers) \<Rightarrow>
        (case resultMap name of
           Some result \<Rightarrow>
             if isValidScore (ar_score result)
             then (overallScore + numberOf (ar_score result) * weight, totalWeight + weight,
                   Suc validAnalyzers)
             else acc
         | None \<Rightarrow> acc))"

text \<open>\<open>Math.round(x * 100) / 100\<close>.\<close>

definition round2 :: "real \<Rightarrow> real" where
  "round2 x = real_of_int (Math_round (x * 100)) / 100"

text \<open>
  The score computation of \<open>combineAnalysisResults\<close> (lines 260-286 and 339) over a
  weight table \<open>ws\<close>: the weighted average, the plain average of all valid scores when
  the weights add up to nothing, and 0 when no weighted analyzer has a valid score.
\<close>

definition overallScoreWith ::
  "(string \<times> real) list \<Rightarrow> (string \<times> AnalysisResult) list \<Rightarrow> int" where
  "overallScoreWith ws results =
     (let resultMap = resultMapOf results;
          (overallScore, totalWeight, validAnalyzers) = fold (accumulate resultMap) ws (0, 0, 0);
          overallScore' =
            (if totalWeight > 0 \<and> validAnalyzers > 0
             then round2 (overallScore / totalWeight)
             else if validAnalyzers > 0
             then (let validScores =
                         map (\<lambda>name. numberOf (ar_score (the (resultMap name))))
                           (filter (\<lambda>name. isValidScore (ar_score (the (resultMap name))))
                              (remdups (map fst results)))
                   in if length validScores > 0
                      then round2 (sum_list validScores / real (length validScores))
                      else 0)
             else 0)
      in Math_round overallScore')"

definition overallScoreOf :: "(string \<times> AnalysisResult) list \<Rightarrow> int" where
  "overallScoreOf results = overallScoreWith weights results"

text \<open>\<open>resultMap.get(name)?.data || default\<close>, the per-analyzer field of the focused result.\<close>

definition focusedData :: "(string \<rightharpoonup> AnalysisResult) \<Rightarrow> string \<Rightarrow> analyzer_data" where
  "focusedData resultMap name =
     (case resultMap name of
        Some result \<Rightarrow>
          (case ar_data result of
             Some d \<Rightarrow> d
           | None \<Rightarrow> the (getDefaultAnalyzerData name))
      | None \<Rightarrow> the (getDefaultAnalyzerData name))"

text \<open>
  The order in which \<open>convertToLegacyFormat\<close> concatenates the analyzers' issue lists.
  It reads them from the \<open>data\<close> records (\<open>focusedResult.title?.issues || []\<close>, ...).
\<close>

definition legacyOrder :: "string list" where
  "legacyOrder = [''title'', ''description'', ''headings'', ''images'', ''technical'',
     ''keywords'', ''performance'', ''links'', ''mobile'', ''security'', ''eat'']"

definition issuesOf :: "analyzer_data \<Rightarrow> issue list" where
  "issuesOf d = (case data_issues d of Some is \<Rightarrow> is | None \<Rightarrow> [])"

text \<open>
  \<open>combineAnalysisResults\<close> followed by \<open>convertToLegacyFormat\<close>: the page result of a
  page whose analyzers have run.
\<close>

definition combineAndConvert ::
  "AnalysisContext \<Rightarrow> (string \<times> AnalysisResult) list \<Rightarrow> CompleteAnalysisResult" where
  "combineAndConvert context results =
     (let resultMap = resultMapOf results in
      \<lparr> res_url = ctx_url context,
        res_status = Success,
        res_errorType = None, res_errorCode = None,
        res_seoScore = overallScoreOf results,
        res_issues = concat (map (\<lambda>name. issuesOf (focusedData resultMap name)) legacyOrder),
        res_sitemap = data_sitemap (focusedData resultMap ''technical''),
        res_internalUrls = data_internalUrls (focusedData resultMap ''links'') \<rparr>)"

text \<open>
  What \<open>fetchWithTimeout\<close> and \<open>response.text()\<close> give \<open>performAnalysis\<close>: an
  exception with its message, or a response with its \<open>ok\<close> flag, its status and its
  body.
\<close>

datatype fetch_outcome = FetchThrows string | Response bool nat string

text \<open>\<open>createHttpError\<close>: the code of a status.\<close>

definition httpErrorCode :: "nat \<Rightarrow> ErrorCode" where
  "httpErrorCode statusCode =
     (if statusCode = 404 then HTTP_404
      else if statusCode = 403 then HTTP_403
      else if statusCode = 500 then HTTP_500
      else if statusCode = 502 then HTTP_502
      else if statusCode = 503 then HTTP_503
      else FETCH_FAILED)"

text \<open>\<open>String.prototype.includes\<close>.\<close>

fun str_includes :: "string \<Rightarrow> string \<Rightarrow> bool" where
  "str_includes [] sub = (sub = [])"
| "str_includes (c # cs) sub = (prefix sub (c # cs) \<or> str_includes cs sub)"

text \<open>\<open>createErrorFromException\<close>: the code read off the exception's message.\<close>

definition exceptionCode :: "string \<Rightarrow> ErrorCode" where
  "exceptionCode msg =
     (if str_includes msg ''timeout'' \<or> str_includes msg ''AbortError'' then CONNECTION_TIMEOUT
      else if str_includes msg ''fetch'' \<or> str_includes msg ''network'' then FETCH_FAILED
      else if str_includes msg ''DNS'' \<or> str_includes msg ''ENOTFOUND'' then DNS_RESOLUTION_FAILED
      else if str_includes msg ''SSL'' \<or> str_includes msg ''certificate'' then SSL_ERROR
      else if str_includes msg ''empty'' \<or> str_includes msg ''no content'' then EMPTY_RESPONSE
      else if str_includes msg ''too large'' \<or> str_includes msg ''size limit'' then PAGE_TOO_LARGE
      else if str_includes msg ''parse'' \<or> str_includes msg ''parsing'' then CONTENT_PARSING_FAILED
      else INTERNAL_ERROR)"

text \<open>
  \<open>createErrorResult(url, formatErrorResponse(error))\<close>: a failed page with the error's
  type and code and every analysis field empty.
\<close>

definition createErrorResult :: "string \<Rightarrow> ErrorCode \<Rightarrow> CompleteAnalysisResult" where
  "createErrorResult u code =
     \<lparr> res_url = u, res_status = Failed,
       res_errorType = Some (definitionType code), res_errorCode = Some code,
       res_seoScore = 0, res_issues = [], res_sitemap = None, res_internalUrls = [] \<rparr>"

text \<open>
  A string of the model is a list of 8-bit characters: the code units \<open>U+0000\<close> to
  \<open>U+00FF\<close> of a JavaScript string (a text with a code unit above \<open>U+00FF\<close> is
  outside the model). Of these, \<open>String.prototype.trim\<close> strips the white space and
  the line terminators of the language: tab, line feed, vertical tab, form feed,
  carriage return, space and the no-break space \<open>U+00A0\<close>.
\<close>

definition isWhiteSpace :: "char \<Rightarrow> bool" where
  "isWhiteSpace c = (c = CHR '' '' \<or> c = CHR 0x09 \<or> c = CHR 0x0A \<or> c = CHR 0x0B
     \<or> c = CHR 0x0C \<or> c = CHR 0x0D \<or> c = CHR 0xA0)"

definition trim :: "string \<Rightarrow> string" where
  "trim s = rev (dropWhile isWhiteSpace (rev (dropWhile isWhiteSpace s)))"

text \<open>
  \<open>performAnalysis\<close> after the fetch, inside the \<open>try\<close> of \<open>analyzeUrl\<close>: a thrown
  fetch, a response that is not \<open>ok\<close>, an empty body and a body above
  \<open>SEO_THRESHOLDS.PAGE_SIZE_LIMIT\<close> (a constant of a file that is not part of the
  sources, taken as the parameter \<open>pageSizeLimit\<close>) each give a failed page and run no
  analyzer; otherwise every analyzer of the registry runs, in registration order, and the
  results are combined. (The check of \<open>validateUrlFormat\<close> that precedes the fetch is
  the route's own second validation step; the pages analysed here have passed it.)
\<close>

definition analyzeUrl ::
  "nat \<Rightarrow> (string \<times> analyzer) list \<Rightarrow> string \<Rightarrow> bool \<Rightarrow> nat \<Rightarrow> fetch_outcome
     \<Rightarrow> CompleteAnalysisResult" where
  "analyzeUrl pageSizeLimit registry u isMainPage loadTime fetched =
     (case fetched of
        FetchThrows msg \<Rightarrow> createErrorResult u (exceptionCode msg)
      | Response ok status html \<Rightarrow>
          if \<not> ok then createErrorResult u (httpErrorCode status)
          else if html = [] \<or> length (trim html) = 0 then createErrorResult u EMPTY_RESPONSE
          else if length html > pageSizeLimit then createErrorResult u PAGE_TOO_LARGE
          else
            (let context = \<lparr> ctx_url = u, ctx_html = html, ctx_status = status,
                              ctx_loadTime = loadTime, ctx_isMainPage = isMainPage \<rparr>
             in combineAndConvert context (map (runAnalyzer context) registry)))"

subsection \<open>Properties of the score computation\<close>

text \<open>
  The invariant of the analyzers' results after \<open>runAnalyzer\<close>: every score is a finite
  number between 0 and 100.
\<close>

definition scoresClamped :: "(string \<rightharpoonup> AnalysisResult) \<Rightarrow> bool" where
  "scoresClamped resultMap =
     (\<forall>name r. resultMap name = Some r \<longrightarrow>
        (\<exists>x. ar_score r = JNum x \<and> 0 \<le> x \<and> x \<le> 100))"

text \<open>The substitute of the \<open>catch\<close> branch of \<open>performAnalysis\<close>.\<close>

definition zeroResult :: "string \<Rightarrow> string \<Rightarrow> AnalysisResult" where
  "zeroResult name userMessage =
     \<lparr> ar_score = JNum 0, ar_issues = [analyzerErrorIssue name userMessage],
       ar_data = getDefaultAnalyzerData name \<rparr>"

text \<open>The weight and the number of entries a weight table holds for a name.\<close>

fun weightOf :: "(string \<times> real) list \<Rightarrow> string \<Rightarrow> real" where
  "weightOf [] name = 0"
| "weightOf ((n, w) # ws) name = (if n = name then w else 0) + weightOf ws name"

fun countOf :: "(string \<times> real) list \<Rightarrow> string \<Rightarrow> nat" where
  "countOf [] name = 0"
| "countOf ((n, w) # ws) name = (if n = name then 1 else 0) + countOf ws name"

lemma validateScore_range: "0 \<le> validateScore v \<and> validateScore v \<le> 100"
  by (cases v) auto

lemma Math_round_range: "0 \<le> x \<Longrightarrow> x \<le> 100 \<Longrightarrow> 0 \<le> Math_round x \<and> Math_round x \<le> 100"
  unfolding Math_round_def by (simp add: floor_le_iff le_floor_iff)

lemma round2_range: "0 \<le> x \<Longrightarrow> x \<le> 100 \<Longrightarrow> 0 \<le> round2 x \<and> round2 x \<le> 100"
proof -
  assume a: "0 \<le> x" "x \<le> 100"
  have "0 \<le> Math_round (x * 100) \<and> Math_round (x * 100) \<le> 10000"
    unfolding Math_round_def using a by (simp add: floor_le_iff le_floor_iff)
  then show ?thesis unfolding round2_def by simp
qed

lemma accumulate_inv:
  assumes "scoresClamped rm" "0 \<le> snd e"
    and "0 \<le> S" "S \<le> 100 * W" "0 \<le> W"
    and "accumulate rm e (S, W, n) = (S', W', n')"
  shows "0 \<le> S' \<and> S' \<le> 100 * W' \<and> 0 \<le> W'"
proof (cases e)
  case (Pair name weight)
  show ?thesis
  proof (cases "rm name")
    case None
    then show ?thesis using assms Pair by (simp add: accumulate_def)
  next
    case (Some r)
    then obtain x where x: "ar_score r = JNum x" "0 \<le> x" "x \<le> 100"
      using assms(1) unfolding scoresClamped_def by blast
    have w: "0 \<le> weight" using assms(2) Pair by simp
    have "x * weight \<le> 100 * weight" using x w by (simp add: mult_right_mono)
    moreover have "0 \<le> x * weight" using x w by simp
    moreover have "S' = S + x * weight" "W' = W + weight"
      using assms(6) Pair Some x by (simp_all add: accumulate_def)
    ultimately show ?thesis using assms(3-5) w by simp
  qed
qed

lemma fold_accumulate_inv:
  assumes "scoresClamped rm" "list_all (\<lambda>e. 0 \<le> snd e) ws"
    and "0 \<le> S" "S \<le> 100 * W" "0 \<le> W"
    and "fold (accumulate rm) ws (S, W, n) = (S', W', n')"
  shows "0 \<le> S' \<and> S' \<le> 100 * W' \<and> 0 \<le> W'"
  using assms
proof (induction ws arbitrary: S W n)
  case Nil
  then show ?case by simp
next
  case (Cons e ws)
  obtain S1 W1 n1 where st: "accumulate rm e (S, W, n) = (S1, W1, n1)"
    by (cases "accumulate rm e (S, W, n)") auto
  have "0 \<le> S1 \<and> S1 \<le> 100 * W1 \<and> 0 \<le> W1"
    using accumulate_inv [OF Cons.prems(1) _ Cons.prems(3-5) st] Cons.prems(2) by simp
  moreover have "fold (accumulate rm) ws (S1, W1, n1) = (S', W', n')"
    using Cons.prems(6) st by simp
  ultimately show ?case using Cons.IH [of S1 W1 n1] Cons.prems(1,2) by simp
qed

lemma sum_list_range:
  "list_all (\<lambda>x. 0 \<le> x \<and> x \<le> (100::real)) xs \<Longrightarrow> 0 \<le> sum_list xs \<and> sum_list xs \<le> 100 * real (length xs)"
  by (induction xs) (auto simp: algebra_simps)

lemma weights_nonneg: "list_all (\<lambda>e. 0 \<le> snd e) weights"
  by (simp add: weights_def)

lemma overallScoreWith_range:
  assumes "scoresClamped (resultMapOf results)" "list_all (\<lambda>e. 0 \<le> snd e) ws"
  shows "0 \<le> overallScoreWith ws results \<and> overallScoreWith ws results \<le> 100"
proof -
  let ?rm = "resultMapOf results"
  obtain S W n where f: "fold (accumulate ?rm) ws (0, 0, 0) = (S, W, n)"
    by (cases "fold (accumulate ?rm) ws (0, 0, 0)") auto
  have inv: "0 \<le> S \<and> S \<le> 100 * W \<and> 0 \<le> W"
    using fold_accumulate_inv [OF assms(1,2) _ _ _ f] by simp
  let ?names = "filter (\<lambda>name. isValidScore (ar_score (the (?rm name)))) (remdups (map fst results))"
  let ?vs = "map (\<lambda>name. numberOf (ar_score (the (?rm name)))) ?names"
  have dom: "\<And>name. name \<in> set (map fst results) \<Longrightarrow> \<exists>r. ?rm name = Some r"
    unfolding resultMapOf_def by (metis map_of_eq_None_iff not_Some_eq set_map set_rev)
  have "list_all (\<lambda>x. 0 \<le> x \<and> x \<le> 100) ?vs"
  proof -
    have "\<And>name. name \<in> set (map fst results) \<Longrightarrow>
        0 \<le> numberOf (ar_score (the (?rm name))) \<and> numberOf (ar_score (the (?rm name))) \<le> 100"
    proof -
      fix name assume "name \<in> set (map fst results)"
      then obtain r where r: "?rm name = Some r" using dom by blast
      then obtain x where "ar_score r = JNum x" "0 \<le> x" "x \<le> 100"
        using assms(1) unfolding scoresClamped_def by blast
      then show "0 \<le> numberOf (ar_score (the (?rm name))) \<and> numberOf (ar_score (the (?rm name))) \<le> 100"
        using r by simp
    qed
    then show ?thesis by (simp add: list_all_iff)
  qed
  then have avg: "0 \<le> sum_list ?vs \<and> sum_list ?vs \<le> 100 * real (length ?vs)"
    by (rule sum_list_range)
  have avg2: "length ?vs > 0 \<Longrightarrow> 0 \<le> sum_list ?vs / real (length ?vs) \<and> sum_list ?vs / real (length ?vs) \<le> 100"
    using avg by (simp add: divide_le_eq)
  have w: "W > 0 \<Longrightarrow> 0 \<le> S / W \<and> S / W \<le> 100"
    using inv by (simp add: divide_le_eq)
  define v where "v = (if W > 0 \<and> n > 0 then round2 (S / W)
             else if n > 0
             then (if length ?vs > 0 then round2 (sum_list ?vs / real (length ?vs)) else 0)
             else 0)"
  have "0 \<le> v \<and> v \<le> 100"
    unfolding v_def using round2_range w avg2 by auto
  then have "0 \<le> Math_round v \<and> Math_round v \<le> 100" by (simp add: Math_round_range)
  moreover have "overallScoreWith ws results = Math_round v"
    unfolding overallScoreWith_def v_def Let_def f by simp
  ultimately show ?thesis by simp
qed

lemma runAnalyzer_clamped:
  "\<exists>x. ar_score (snd (runAnalyzer context entry)) = JNum x \<and> 0 \<le> x \<and> x \<le> 100"
  by (cases entry) (auto simp: runAnalyzer_def validateScore_range split: analyzer_run.splits)

lemma scoresClamped_run: "scoresClamped (resultMapOf (map (runAnalyzer context) registry))"
  unfolding scoresClamped_def resultMapOf_def
proof (intro allI impI)
  fix name r
  assume "map_of (rev (map (runAnalyzer context) registry)) name = Some r"
  then have "(name, r) \<in> set (map (runAnalyzer context) registry)"
    using map_of_SomeD by fastforce
  then obtain e where "runAnalyzer context e = (name, r)" by auto
  then have "r = snd (runAnalyzer context e)" by simp
  then show "\<exists>x. ar_score r = JNum x \<and> 0 \<le> x \<and> x \<le> 100"
    by (simp only: runAnalyzer_clamped)
qed

lemma fold_accumulate_zero:
  assumes "rm f = None" "ar_score z = JNum 0" "rm' = rm(f \<mapsto> z)"
    and "fold (accumulate rm) ws (S, W, n) = (S0, W0, n0)"
  shows "fold (accumulate rm') ws (S, W + d, n + k)
           = (S0, W0 + d + weightOf ws f, n0 + k + countOf ws f)"
  using assms(4)
proof (induction ws arbitrary: S W n d k)
  case Nil
  then show ?case by simp
next
  case (Cons e ws)
  obtain name w where e: "e = (name, w)" by (cases e)
  show ?case
  proof (cases "name = f")
    case True
    have a: "accumulate rm e (S, W, n) = (S, W, n)"
      using True e assms(1) by (simp add: accumulate_def)
    have b: "accumulate rm' e (S, W + d, n + k) = (S, W + (d + w), n + Suc k)"
      using True e assms(2,3) by (simp add: accumulate_def)
    have "fold (accumulate rm) ws (S, W, n) = (S0, W0, n0)" using Cons.prems a by simp
    from Cons.IH [OF this, of "d + w" "Suc k"]
    have "fold (accumulate rm') ws (S, W + (d + w), n + Suc k)
        = (S0, W0 + (d + w) + weightOf ws f, n0 + Suc k + countOf ws f)" .
    moreover have "fold (accumulate rm') (e # ws) (S, W + d, n + k)
        = fold (accumulate rm') ws (S, W + (d + w), n + Suc k)"
      by (simp only: fold_simps b)
    ultimately show ?thesis using True e by simp
  next
    case False
    obtain S1 W1 n1 where a: "accumulate rm e (S, W, n) = (S1, W1, n1)"
      by (cases "accumulate rm e (S, W, n)") auto
    have b: "accumulate rm' e (S, W + d, n + k) = (S1, W1 + d, n1 + k)"
      using False e a assms(3) by (auto simp: accumulate_def split: option.splits if_splits)
    have "fold (accumulate rm) ws (S1, W1, n1) = (S0, W0, n0)" using Cons.prems a by simp
    from Cons.IH [OF this, of d k]
    have "fold (accumulate rm') ws (S1, W1 + d, n1 + k)
        = (S0, W0 + d + weightOf ws f, n0 + k + countOf ws f)" .
    moreover have "fold (accumulate rm') (e # ws) (S, W + d, n + k)
        = fold (accumulate rm') ws (S1, W1 + d, n1 + k)"
      by (simp only: fold_simps b)
    ultimately show ?thesis using False e by simp
  qed
qed

lemma runAnalyzer_fst: "fst (runAnalyzer c e) = fst e"
  by (cases e) (simp add: runAnalyzer_def split: analyzer_run.splits)

lemma resultMapOf_split:
  assumes "distinct (map fst (pre @ (name, z) # post))"
  shows "resultMapOf (pre @ (name, z) # post) = (resultMapOf (pre @ post))(name \<mapsto> z)"
proof
  fix n
  have d: "distinct (map fst (rev (pre @ (name, z) # post)))" "distinct (map fst (rev (pre @ post)))"
    using assms by (simp_all add: rev_map [symmetric] del: rev_append)
  show "resultMapOf (pre @ (name, z) # post) n = ((resultMapOf (pre @ post))(name \<mapsto> z)) n"
  proof (cases "n = name")
    case True
    have "(name, z) \<in> set (rev (pre @ (name, z) # post))" by simp
    then have "map_of (rev (pre @ (name, z) # post)) name = Some z"
      using d(1) by (rule map_of_is_SomeI [rotated])
    then show ?thesis using True by (simp add: resultMapOf_def)
  next
    case False
    then show ?thesis
      unfolding resultMapOf_def
      by (simp add: map_add_def map_of_append split: option.splits)
  qed
qed

lemma resultMapOf_absent:
  "name \<notin> fst ` set rs \<Longrightarrow> resultMapOf rs name = None"
  by (simp add: resultMapOf_def map_of_eq_None_iff)

lemma weightOf_absent:
  "name \<notin> fst ` set ws \<Longrightarrow> weightOf ws name = 0 \<and> countOf ws name = 0"
  by (induction ws) auto

lemma weightOf_distinct:
  "distinct (map fst ws) \<Longrightarrow> (name, w) \<in> set ws \<Longrightarrow> weightOf ws name = w \<and> countOf ws name = 1"
proof (induction ws)
  case Nil
  then show ?case by simp
next
  case (Cons e ws)
  obtain n v where e: "e = (n, v)" by (cases e)
  show ?case
  proof (cases "n = name")
    case True
    then have "name \<notin> fst ` set ws" using Cons.prems(1) e by simp
    moreover from this have "v = w" using Cons.prems(2) e True by force
    ultimately show ?thesis using weightOf_absent [of name ws] e True by simp
  next
    case False
    then show ?thesis using Cons e by auto
  qed
qed

subsection \<open>A page with three analyzers, one of which throws\<close>

text \<open>
  Analyzers for the examples: \<open>scoring s name\<close> returns the score \<open>s\<close> with one success
  issue (also recorded in its \<open>data\<close>), \<open>throwing\<close> throws. \<open>registry3\<close> registers
  \<open>title\<close> (score 80), \<open>description\<close> (score 100) and a throwing \<open>links\<close>;
  \<open>registry2\<close> is the same registry without the throwing analyzer; \<open>registry5\<close>
  holds analyzers whose scores are \<open>NaN\<close>, 250, -5 and infinite, and a throwing one.
\<close>

definition okIssue :: "string \<Rightarrow> issue" where
  "okIssue name =
     \<lparr> itype = IssueSuccess, message = name, priority = Low, category = ''content'' \<rparr>"

definition scoring :: "jsvalue \<Rightarrow> string \<Rightarrow> analyzer" where
  "scoring s name ctx =
     Returns \<lparr> ar_score = s, ar_issues = [okIssue name],
       ar_data = Some \<lparr> data_issues = Some [okIssue name], data_internalUrls = [],
                         data_sitemap = None \<rparr> \<rparr>"

definition throwing :: analyzer where
  "throwing ctx = Throws ''Error interno del sistema''"

definition registry2 :: "(string \<times> analyzer) list" where
  "registry2 = [(''title'', scoring (JNum 80) ''title''),
                (''description'', scoring (JNum 100) ''description'')]"

definition registry3 :: "(string \<times> analyzer) list" where
  "registry3 = registry2 @ [(''links'', throwing)]"

definition page3 :: CompleteAnalysisResult where
  "page3 = analyzeUrl 5000000 registry3 ''https://example.com/'' False 120
             (Response True 200 ''<html><title>t</title></html>'')"

definition page2 :: CompleteAnalysisResult where
  "page2 = analyzeUrl 5000000 registry2 ''https://example.com/'' False 120
             (Response True 200 ''<html><title>t</title></html>'')"

definition ctx3 :: AnalysisContext where
  "ctx3 = \<lparr> ctx_url = ''https://example.com/'', ctx_html = ''<html><title>t</title></html>'',
             ctx_status = 200, ctx_loadTime = 120, ctx_isMainPage = False \<rparr>"

definition registry5 :: "(string \<times> analyzer) list" where
  "registry5 = [(''title'', scoring JNaN ''title''),
                (''description'', scoring (JNum 250) ''description''),
                (''headings'', scoring (JNum (- 5)) ''headings''),
                (''technical'', scoring JPosInf ''technical''),
                (''links'', throwing)]"

lemma Math_round_eqI:
  "real_of_int n \<le> x + 1 / 2 \<Longrightarrow> x + 1 / 2 < real_of_int n + 1 \<Longrightarrow> Math_round x = n"
  unfolding Math_round_def by (rule floor_unique)

lemma round_8214: "Math_round (round2 (575 / 7)) = 82"
proof -
  have m: "Math_round (575 / 7 * 100) = 8214" by (rule Math_round_eqI) simp_all
  have r: "round2 (575 / 7) = 8214 / 100" unfolding round2_def m by simp
  show ?thesis unfolding r by (rule Math_round_eqI) simp_all
qed

lemma round_8846: "Math_round (round2 (1150 / 13)) = 88"
proof -
  have m: "Math_round (1150 / 13 * 100) = 8846" by (rule Math_round_eqI) simp_all
  have r: "round2 (1150 / 13) = 8846 / 100" unfolding round2_def m by simp
  show ?thesis unfolding r by (rule Math_round_eqI) simp_all
qed

lemma accumulate_registry3: "fold (accumulate (resultMapOf (map (runAnalyzer ctx) registry3))) weights (0, 0, 0) = (23, 28 / 100, 3)"
  by (simp add: registry3_def registry2_def runAnalyzer_def scoring_def throwing_def
      resultMapOf_def weights_def accumulate_def)

lemma accumulate_registry2: "fold (accumulate (resultMapOf (map (runAnalyzer ctx) registry2))) weights (0, 0, 0) = (23, 26 / 100, 2)"
  by (simp add: registry2_def runAnalyzer_def scoring_def
      resultMapOf_def weights_def accumulate_def)

lemma score_registry3: "overallScoreOf (map (runAnalyzer ctx) registry3) = 82"
  by (simp add: overallScoreOf_def overallScoreWith_def accumulate_registry3 Let_def round_8214)

lemma score_registry2: "overallScoreOf (map (runAnalyzer ctx) registry2) = 88"
  by (simp add: overallScoreOf_def overallScoreWith_def accumulate_registry2 Let_def round_8846)

lemma issues_registry3: "res_issues (combineAndConvert ctx (map (runAnalyzer ctx) registry3)) = [okIssue ''title'', okIssue ''description'']"
  by (simp add: combineAndConvert_def Let_def registry3_def registry2_def runAnalyzer_def scoring_def throwing_def
      resultMapOf_def legacyOrder_def focusedData_def issuesOf_def getDefaultAnalyzerData_def defaultNames_def)

lemma issues_registry2: "res_issues (combineAndConvert ctx (map (runAnalyzer ctx) registry2)) = [okIssue ''title'', okIssue ''description'']"
  by (simp add: combineAndConvert_def Let_def registry2_def runAnalyzer_def scoring_def
      resultMapOf_def legacyOrder_def focusedData_def issuesOf_def getDefaultAnalyzerData_def defaultNames_def)

lemma weights_distinct: "distinct (map fst weights)"
  by (simp add: weights_def)

lemma weights_pos: "(name, w) \<in> set weights \<Longrightarrow> 0 < w"
  by (auto simp: weights_def)

lemma analyzeUrl_ok:
  assumes "trim html \<noteq> []" "length html \<le> limit"
  shows "analyzeUrl limit registry u isMain loadTime (Response True status html)
     = combineAndConvert \<lparr> ctx_url = u, ctx_html = html, ctx_status = status,
                              ctx_loadTime = loadTime, ctx_isMainPage = isMain \<rparr>
         (map (runAnalyzer \<lparr> ctx_url = u, ctx_html = html, ctx_status = status,
                              ctx_loadTime = loadTime, ctx_isMainPage = isMain \<rparr>) registry)"
proof -
  have "html \<noteq> []" using assms(1) by (auto simp: trim_def)
  then show ?thesis using assms by (simp add: analyzeUrl_def Let_def)
qed

lemma runAnalyzer_names: "fst ` set (map (runAnalyzer ctx) xs) = fst ` set xs"
  by (induction xs) (simp_all add: runAnalyzer_fst)

lemma accumulate_cong:
  assumes "map_option ar_score (rm1 (fst e)) = map_option ar_score (rm2 (fst e))"
  shows "accumulate rm1 e acc = accumulate rm2 e acc"
proof (cases e)
  case (Pair name weight)
  show ?thesis
  proof (cases "rm1 name")
    case None
    then have "rm2 name = None" using assms Pair by simp
    then show ?thesis using None Pair by (simp add: accumulate_def)
  next
    case (Some r1)
    then obtain r2 where r2: "rm2 name = Some r2" "ar_score r1 = ar_score r2"
      using assms Pair by (cases "rm2 name") auto
    then show ?thesis using Some Pair by (cases acc) (simp add: accumulate_def)
  qed
qed

lemma fold_accumulate_cong:
  assumes "\<And>name. map_option ar_score (rm1 name) = map_option ar_score (rm2 name)"
  shows "fold (accumulate rm1) ws acc = fold (accumulate rm2) ws acc"
proof (induction ws arbitrary: acc)
  case Nil
  show ?case by simp
next
  case (Cons e ws)
  have "accumulate rm1 e acc = accumulate rm2 e acc" by (rule accumulate_cong) (rule assms)
  then show ?case using Cons by simp
qed

lemma score_of_the:
  fixes x y :: "AnalysisResult option"
  assumes "map_option ar_score x = map_option ar_score y"
  shows "ar_score (the x) = ar_score (the y)"
  using assms by (cases x; cases y) auto

lemma overallScoreWith_cong:
  assumes "map fst rs1 = map fst rs2"
    and "\<And>name. map_option ar_score (resultMapOf rs1 name) = map_option ar_score (resultMapOf rs2 name)"
  shows "overallScoreWith ws rs1 = overallScoreWith ws rs2"
proof -
  have f: "fold (accumulate (resultMapOf rs1)) ws (0, 0, 0)
      = fold (accumulate (resultMapOf rs2)) ws (0, 0, 0)"
    by (rule fold_accumulate_cong) (rule assms(2))
  have s: "\<And>name. ar_score (the (resultMapOf rs1 name)) = ar_score (the (resultMapOf rs2 name))"
    by (rule score_of_the) (rule assms(2))
  show ?thesis unfolding overallScoreWith_def Let_def f s assms(1) by (rule refl)
qed


lemma Math_round_mono: "x \<le> y \<Longrightarrow> Math_round x \<le> Math_round y"
  unfolding Math_round_def by (simp add: floor_mono)

lemma round2_mono: "x \<le> y \<Longrightarrow> round2 x \<le> round2 y"
  unfolding round2_def by (simp add: Math_round_mono divide_right_mono)

lemma Math_round_0: "Math_round (round2 0) = 0"
  by (simp add: round2_def Math_round_def)

definition weighted :: "real \<times> real \<times> nat \<Rightarrow> bool" where
  "weighted acc = (case acc of (S, W, n) \<Rightarrow>
     0 \<le> S \<and> 0 \<le> W \<and> (n = 0 \<longrightarrow> S = 0) \<and> (0 < n \<longrightarrow> 0 < W))"

lemma accumulate_weighted:
  assumes "scoresClamped rm" "0 < snd e" "weighted acc"
  shows "weighted (accumulate rm e acc)"
proof (cases e)
  case (Pair name weight)
  obtain S W n where acc: "acc = (S, W, n)" by (cases acc)
  show ?thesis
  proof (cases "rm name")
    case None
    then show ?thesis using assms(3) Pair acc by (simp add: accumulate_def)
  next
    case (Some r)
    then obtain x where x: "ar_score r = JNum x" "0 \<le> x"
      using assms(1) unfolding scoresClamped_def by blast
    have w: "0 < weight" using assms(2) Pair by simp
    have "accumulate rm e acc = (S + x * weight, W + weight, Suc n)"
      using Pair acc Some x by (simp add: accumulate_def)
    moreover have "0 \<le> x * weight" using x w by simp
    ultimately show ?thesis using assms(3) acc w by (simp add: weighted_def)
  qed
qed

lemma fold_accumulate_weighted:
  assumes "scoresClamped rm" "list_all (\<lambda>e. 0 < snd e) ws"
  shows "weighted acc \<Longrightarrow> weighted (fold (accumulate rm) ws acc)"
  using assms(2)
proof (induction ws arbitrary: acc)
  case Nil
  then show ?case by simp
next
  case (Cons e ws)
  have "weighted (accumulate rm e acc)"
    using accumulate_weighted [OF assms(1) _ Cons.prems(1)] Cons.prems(2) by simp
  then show ?case using Cons.IH Cons.prems(2) by simp
qed

lemma overallScoreWith_weighted:
  assumes "scoresClamped (resultMapOf results)" "list_all (\<lambda>e. 0 < snd e) ws"
    and "fold (accumulate (resultMapOf results)) ws (0, 0, 0) = (S, W, n)"
  shows "overallScoreWith ws results = (if 0 < n then Math_round (round2 (S / W)) else 0)"
    and "0 \<le> S" and "0 \<le> W" and "n = 0 \<longrightarrow> S = 0" and "0 < n \<longrightarrow> 0 < W"
proof -
  have "weighted (0, 0, 0)" by (simp add: weighted_def)
  from fold_accumulate_weighted [OF assms(1,2) this]
  have w: "weighted (S, W, n)" by (simp add: assms(3))
  then show "0 \<le> S" "0 \<le> W" "n = 0 \<longrightarrow> S = 0" "0 < n \<longrightarrow> 0 < W"
    by (simp_all add: weighted_def)
  show "overallScoreWith ws results = (if 0 < n then Math_round (round2 (S / W)) else 0)"
    unfolding overallScoreWith_def Let_def assms(3)
    using w by (auto simp: weighted_def Math_round_def)
qed

lemma weights_positive: "list_all (\<lambda>e. 0 < snd e) weights"
  by (simp add: weights_def)

lemma weightOf_nonneg: "list_all (\<lambda>e. 0 \<le> snd e) ws \<Longrightarrow> 0 \<le> weightOf ws name"
  by (induction ws) auto

lemma failure_accumulators:
  assumes "distinct (map fst (pre @ (name, an) # post))"
    and "an ctx = Throws msg"
    and "fold (accumulate (resultMapOf (map (runAnalyzer ctx) (pre @ post)))) weights (0, 0, 0)
           = (S0, W0, n0)"
  shows "fold (accumulate (resultMapOf (map (runAnalyzer ctx) (pre @ (name, an) # post))))
           weights (0, 0, 0)
         = (S0, W0 + weightOf weights name, n0 + countOf weights name)"
proof -
  let ?others = "map (runAnalyzer ctx) (pre @ post)"
  let ?all = "map (runAnalyzer ctx) (pre @ (name, an) # post)"
  let ?z = "zeroResult name msg"
  have run: "runAnalyzer ctx (name, an) = (name, ?z)"
    using assms(2) by (simp add: runAnalyzer_def zeroResult_def)
  have fsts: "\<And>xs. map fst (map (runAnalyzer ctx) xs) = map fst xs"
    by (simp add: runAnalyzer_fst)
  have "distinct (map fst ?all)" using assms(1) by (simp only: fsts)
  then have d: "distinct (map fst (map (runAnalyzer ctx) pre @ (name, ?z) # map (runAnalyzer ctx) post))"
    using run by simp
  have rm: "resultMapOf ?all = (resultMapOf ?others)(name \<mapsto> ?z)"
    using resultMapOf_split [OF d] by (simp add: run)
  have "name \<notin> fst ` set ?others"
  proof -
    have "fst ` set ?others = fst ` set (pre @ post)" by (rule runAnalyzer_names)
    moreover have "name \<notin> fst ` set (pre @ post)" using assms(1) by auto
    ultimately show ?thesis by simp
  qed
  then have none: "resultMapOf ?others name = None" by (rule resultMapOf_absent)
  have z: "ar_score ?z = JNum 0" by (simp add: zeroResult_def)
  have "fold (accumulate ((resultMapOf ?others)(name \<mapsto> ?z))) weights (0, 0 + 0, 0 + 0)
      = (S0, W0 + 0 + weightOf weights name, n0 + 0 + countOf weights name)"
    by (rule fold_accumulate_zero [OF none z refl assms(3)])
  then have "fold (accumulate ((resultMapOf ?others)(name \<mapsto> ?z))) weights (0, 0, 0)
      = (S0, W0 + weightOf weights name, n0 + countOf weights name)"
    by simp
  then show ?thesis by (simp only: rm)
qed

lemma failure_lowers_score:
  assumes "distinct (map fst (pre @ (name, an) # post))"
    and "an ctx = Throws msg"
  shows "overallScoreOf (map (runAnalyzer ctx) (pre @ (name, an) # post))
           \<le> overallScoreOf (map (runAnalyzer ctx) (pre @ post))"
proof -
  let ?others = "map (runAnalyzer ctx) (pre @ post)"
  let ?all = "map (runAnalyzer ctx) (pre @ (name, an) # post)"
  obtain S0 W0 n0 where f0: "fold (accumulate (resultMapOf ?others)) weights (0, 0, 0) = (S0, W0, n0)"
    by (cases "fold (accumulate (resultMapOf ?others)) weights (0, 0, 0)") auto
  note f1 = failure_accumulators [OF assms f0]
  note a = overallScoreWith_weighted [OF scoresClamped_run weights_positive f1]
  note b = overallScoreWith_weighted [OF scoresClamped_run weights_positive f0]
  have wn: "0 \<le> weightOf weights name" by (rule weightOf_nonneg [OF weights_nonneg])
  show ?thesis
  proof (cases "0 < n0")
    case True
    then have W0: "0 < W0" using b(5) by simp
    have "S0 / (W0 + weightOf weights name) \<le> S0 / W0"
      using W0 wn b(2) by (simp add: frac_le)
    then have "Math_round (round2 (S0 / (W0 + weightOf weights name)))
        \<le> Math_round (round2 (S0 / W0))"
      by (intro Math_round_mono round2_mono)
    then show ?thesis unfolding overallScoreOf_def a(1) b(1) using True by simp
  next
    case False
    then have "S0 = 0" using b(4) by simp
    then show ?thesis unfolding overallScoreOf_def a(1) b(1) using False
      by (simp add: Math_round_0)
  qed
qed

lemma zero_score_same:
  assumes "distinct (map fst (pre @ (name, an) # post))"
    and "an ctx = Throws msg"
    and "zero ctx = Returns r0" and "validateScore (ar_score r0) = 0"
  shows "overallScoreOf (map (runAnalyzer ctx) (pre @ (name, an) # post))
           = overallScoreOf (map (runAnalyzer ctx) (pre @ (name, zero) # post))"
proof -
  let ?others = "map (runAnalyzer ctx) (pre @ post)"
  let ?z = "zeroResult name msg"
  let ?r = "r0\<lparr> ar_score := JNum 0 \<rparr>"
  have run: "runAnalyzer ctx (name, an) = (name, ?z)"
    using assms(2) by (simp add: runAnalyzer_def zeroResult_def)
  have run0: "runAnalyzer ctx (name, zero) = (name, ?r)"
    using assms(3,4) by (simp add: runAnalyzer_def)
  have fsts: "\<And>xs. map fst (map (runAnalyzer ctx) xs) = map fst xs"
    by (simp add: runAnalyzer_fst)
  have e: "map fst (map (runAnalyzer ctx) pre @ (name, v) # map (runAnalyzer ctx) post)
      = map fst (pre @ (name, an) # post)" for v :: AnalysisResult
    using fsts [of pre] fsts [of post] by simp
  have d0: "distinct (map fst (map (runAnalyzer ctx) pre @ (name, v) # map (runAnalyzer ctx) post))"
    for v :: AnalysisResult
    unfolding e by (rule assms(1))
  have rm: "resultMapOf (map (runAnalyzer ctx) (pre @ (name, an) # post))
      = (resultMapOf ?others)(name \<mapsto> ?z)"
    using resultMapOf_split [OF d0 [of ?z]] by (simp add: run)
  have rm0: "resultMapOf (map (runAnalyzer ctx) (pre @ (name, zero) # post))
      = (resultMapOf ?others)(name \<mapsto> ?r)"
    using resultMapOf_split [OF d0 [of ?r]] by (simp add: run0)
  show ?thesis
    unfolding overallScoreOf_def
  proof (rule overallScoreWith_cong)
    show "map fst (map (runAnalyzer ctx) (pre @ (name, an) # post))
        = map fst (map (runAnalyzer ctx) (pre @ (name, zero) # post))"
      by (simp add: runAnalyzer_fst)
    fix n
    show "map_option ar_score (resultMapOf (map (runAnalyzer ctx) (pre @ (name, an) # post)) n)
        = map_option ar_score (resultMapOf (map (runAnalyzer ctx) (pre @ (name, zero) # post)) n)"
      unfolding rm rm0 by (simp add: zeroResult_def)
  qed
qed

lemma trim_html3: "trim ''<html><title>t</title></html>'' \<noteq> []"
  by (simp add: trim_def isWhiteSpace_def)

lemma page3_combine: "page3 = combineAndConvert ctx3 (map (runAnalyzer ctx3) registry3)"
  unfolding page3_def ctx3_def by (rule analyzeUrl_ok [OF trim_html3]) simp

lemma page2_combine: "page2 = combineAndConvert ctx3 (map (runAnalyzer ctx3) registry2)"
  unfolding page2_def ctx3_def by (rule analyzeUrl_ok [OF trim_html3]) simp

lemma accumulate_registry5: "fold (accumulate (resultMapOf (map (runAnalyzer ctx) registry5))) weights (0, 0, 0) = (11, 50 / 100, 5)"
  by (simp add: registry5_def runAnalyzer_def scoring_def throwing_def
      resultMapOf_def weights_def accumulate_def)

lemma round_22: "Math_round (round2 22) = 22"
proof -
  have m: "Math_round (22 * 100) = 2200" by (rule Math_round_eqI) simp_all
  have r: "round2 22 = 22" unfolding round2_def m by simp
  show ?thesis unfolding r by (rule Math_round_eqI) simp_all
qed

lemma score_registry5: "overallScoreOf (map (runAnalyzer ctx) registry5) = 22"
  by (simp add: overallScoreOf_def overallScoreWith_def accumulate_registry5 Let_def round_22)

lemma analyzeUrl_range:
  "0 \<le> res_seoScore (analyzeUrl limit registry u isMain loadTime fetched)
   \<and> res_seoScore (analyzeUrl limit registry u isMain loadTime fetched) \<le> 100"
proof -
  have c: "\<And>ctx. 0 \<le> res_seoScore (combineAndConvert ctx (map (runAnalyzer ctx) registry))
      \<and> res_seoScore (combineAndConvert ctx (map (runAnalyzer ctx) registry)) \<le> 100"
    using overallScoreWith_range [OF scoresClamped_run weights_nonneg]
    by (simp add: combineAndConvert_def overallScoreOf_def Let_def)
  show ?thesis
    unfolding analyzeUrl_def
    by (simp add: createErrorResult_def c Let_def split: fetch_outcome.splits)
qed

text \<open>
  Claim C10. Whatever the analyzers leave in \<open>result.score\<close> (\<open>NaN\<close>, an infinity, a
  value that is no number, a negative number, a number above 100), the score the
  orchestrator keeps for an analyzer that returned is \<open>validateScore\<close> of it, a number
  between 0 and 100 (0 for the values that are no finite number, the nearest bound for
  a number out of range); and the overall score, of the combined analyzers as of any page
  result, is an integer between 0 and 100.
\<close>

theorem orchestrator_score_range:
  "0 \<le> validateScore v \<and> validateScore v \<le> 100
   \<and> validateScore JNaN = 0 \<and> validateScore JPosInf = 0 \<and> validateScore JNegInf = 0
   \<and> validateScore JNotNumber = 0
   \<and> validateScore (JNum x) = (if x < 0 then 0 else if 100 < x then 100 else x)
   \<and> ar_score (snd (runAnalyzer ctx (name, an)))
       = JNum (case an ctx of Returns r \<Rightarrow> validateScore (ar_score r) | Throws m \<Rightarrow> 0)
   \<and> 0 \<le> overallScoreOf (map (runAnalyzer ctx) registry)
   \<and> overallScoreOf (map (runAnalyzer ctx) registry) \<le> 100
   \<and> 0 \<le> res_seoScore (analyzeUrl limit registry u isMain loadTime fetched)
   \<and> res_seoScore (analyzeUrl limit registry u isMain loadTime fetched) \<le> 100"
proof -
  have "ar_score (snd (runAnalyzer ctx (name, an)))
       = JNum (case an ctx of Returns r \<Rightarrow> validateScore (ar_score r) | Throws m \<Rightarrow> 0)"
    by (simp add: runAnalyzer_def split: analyzer_run.splits)
  moreover have "0 \<le> overallScoreOf (map (runAnalyzer ctx) registry)
      \<and> overallScoreOf (map (runAnalyzer ctx) registry) \<le> 100"
    unfolding overallScoreOf_def
    by (rule overallScoreWith_range [OF scoresClamped_run weights_nonneg])
  ultimately show ?thesis
    using validateScore_range [of v] analyzeUrl_range [of limit registry u isMain loadTime fetched]
    by simp
qed

theorem orchestrator_score_range_witness:
  "validateScore (JNum 250) = 100 \<and> validateScore (JNum (- 5)) = 0
   \<and> ar_score (snd (runAnalyzer ctx3 (''description'', scoring (JNum 250) ''description'')))
       = JNum 100
   \<and> overallScoreOf (map (runAnalyzer ctx3) registry5) = 22
   \<and> 0 \<le> overallScoreOf (map (runAnalyzer ctx3) registry5)
   \<and> overallScoreOf (map (runAnalyzer ctx3) registry5) \<le> 100"
  using orchestrator_score_range [of "JNum 250" 250 ctx3 "''description''"
      "scoring (JNum 250) ''description''" registry5]
    orchestrator_score_range [of "JNum (- 5)" "- 5"]
  by (simp add: scoring_def score_registry5)

text \<open>
  Claim C2, as the code has it. On a page whose fetch and validation succeed, with a
  registry of distinctly named analyzers one of which throws: the page result has status
  \<open>Success\<close>; the per-analyzer results are those of the registry without the failed
  analyzer, to which the failed analyzer adds a zero-score result that carries exactly
  one error-type, high-priority issue naming it; the overall score is the score of the
  page on which that analyzer returns a score of 0 instead of throwing (the failed
  analyzer stays in the weighted average, with score 0 and its weight), and so it is at
  most the score computed from the other analyzers only. In the accumulators of the
  weighted average, a failed analyzer of the weight table leaves the weighted sum as it
  is, raises the total weight and counts as one more valid analyzer. The statements
  about the score compare two runs of the same computation and do not depend on how
  the arithmetic rounds.
\<close>

theorem analyzer_failure_isolated:
  assumes "distinct (map fst registry)"
    and "registry = pre @ (name, an) # post"
    and "trim html \<noteq> []" and "length html \<le> limit"
    and "ctx = \<lparr> ctx_url = u, ctx_html = html, ctx_status = status,
                  ctx_loadTime = loadTime, ctx_isMainPage = isMain \<rparr>"
    and "an ctx = Throws msg"
  shows "res_status (analyzeUrl limit registry u isMain loadTime (Response True status html))
           = Success
    \<and> resultMapOf (map (runAnalyzer ctx) registry)
        = (resultMapOf (map (runAnalyzer ctx) (pre @ post)))(name \<mapsto> zeroResult name msg)
    \<and> ar_score (zeroResult name msg) = JNum 0
    \<and> ar_issues (zeroResult name msg)
        = [\<lparr> itype = IssueError, message = ''Error en analisis de '' @ name @ '': '' @ msg,
             priority = High, category = ''technical'' \<rparr>]
    \<and> (\<forall>zero r0. zero ctx = Returns r0 \<and> validateScore (ar_score r0) = 0
          \<longrightarrow> res_seoScore (analyzeUrl limit registry u isMain loadTime
                              (Response True status html))
              = res_seoScore (analyzeUrl limit (pre @ (name, zero) # post) u isMain loadTime
                                (Response True status html)))
    \<and> res_seoScore (analyzeUrl limit registry u isMain loadTime (Response True status html))
        \<le> res_seoScore (analyzeUrl limit (pre @ post) u isMain loadTime
                          (Response True status html))
    \<and> (\<forall>w S W n S0 W0 n0.
          (name, w) \<in> set weights
          \<and> fold (accumulate (resultMapOf (map (runAnalyzer ctx) registry))) weights (0, 0, 0)
              = (S, W, n)
          \<and> fold (accumulate (resultMapOf (map (runAnalyzer ctx) (pre @ post)))) weights (0, 0, 0)
              = (S0, W0, n0)
          \<longrightarrow> S = S0 \<and> W0 < W \<and> n = Suc n0)"
proof -
  have page: "analyzeUrl limit rs u isMain loadTime (Response True status html)
      = combineAndConvert ctx (map (runAnalyzer ctx) rs)" for rs
    unfolding assms(5) by (rule analyzeUrl_ok [OF assms(3,4)])
  have sc: "res_seoScore (combineAndConvert ctx rs) = overallScoreOf rs" for rs
    by (simp add: combineAndConvert_def Let_def)
  have st: "res_status (combineAndConvert ctx (map (runAnalyzer ctx) registry)) = Success"
    by (simp add: combineAndConvert_def Let_def)
  have run: "runAnalyzer ctx (name, an) = (name, zeroResult name msg)"
    using assms(6) by (simp add: runAnalyzer_def zeroResult_def)
  have "map fst (map (runAnalyzer ctx) pre @ (name, zeroResult name msg)
          # map (runAnalyzer ctx) post) = map fst registry"
    unfolding assms(2) using runAnalyzer_fst [of ctx] by simp
  then have "distinct (map fst (map (runAnalyzer ctx) pre @ (name, zeroResult name msg)
      # map (runAnalyzer ctx) post))"
    using assms(1) by simp
  from resultMapOf_split [OF this]
  have rm: "resultMapOf (map (runAnalyzer ctx) registry)
      = (resultMapOf (map (runAnalyzer ctx) (pre @ post)))(name \<mapsto> zeroResult name msg)"
    unfolding assms(2) by (simp add: run)
  have d: "distinct (map fst (pre @ (name, an) # post))" using assms(1,2) by simp
  have same: "\<forall>zero r0. zero ctx = Returns r0 \<and> validateScore (ar_score r0) = 0
      \<longrightarrow> overallScoreOf (map (runAnalyzer ctx) registry)
          = overallScoreOf (map (runAnalyzer ctx) (pre @ (name, zero) # post))"
    unfolding assms(2) using zero_score_same [OF d assms(6)] by blast
  have le: "overallScoreOf (map (runAnalyzer ctx) registry)
      \<le> overallScoreOf (map (runAnalyzer ctx) (pre @ post))"
    unfolding assms(2) by (rule failure_lowers_score [OF d assms(6)])
  have acc: "\<forall>w S W n S0 W0 n0.
          (name, w) \<in> set weights
          \<and> fold (accumulate (resultMapOf (map (runAnalyzer ctx) registry))) weights (0, 0, 0)
              = (S, W, n)
          \<and> fold (accumulate (resultMapOf (map (runAnalyzer ctx) (pre @ post)))) weights (0, 0, 0)
              = (S0, W0, n0)
          \<longrightarrow> S = S0 \<and> W0 < W \<and> n = Suc n0"
  proof (intro allI impI)
    fix w S W n S0 W0 n0
    assume h: "(name, w) \<in> set weights
          \<and> fold (accumulate (resultMapOf (map (runAnalyzer ctx) registry))) weights (0, 0, 0)
              = (S, W, n)
          \<and> fold (accumulate (resultMapOf (map (runAnalyzer ctx) (pre @ post)))) weights (0, 0, 0)
              = (S0, W0, n0)"
    then have w: "(name, w) \<in> set weights" by simp
    from h have f0: "fold (accumulate (resultMapOf (map (runAnalyzer ctx) (pre @ post))))
        weights (0, 0, 0) = (S0, W0, n0)" by simp
    from h have "fold (accumulate (resultMapOf (map (runAnalyzer ctx) registry))) weights (0, 0, 0)
        = (S, W, n)" by simp
    then have "(S, W, n) = (S0, W0 + weightOf weights name, n0 + countOf weights name)"
      unfolding assms(2) failure_accumulators [OF d assms(6) f0] by simp
    then show "S = S0 \<and> W0 < W \<and> n = Suc n0"
      using weightOf_distinct [OF weights_distinct w] weights_pos [OF w] by simp
  qed
  have main: "res_status (combineAndConvert ctx (map (runAnalyzer ctx) registry)) = Success
    \<and> resultMapOf (map (runAnalyzer ctx) registry)
        = (resultMapOf (map (runAnalyzer ctx) (pre @ post)))(name \<mapsto> zeroResult name msg)
    \<and> ar_score (zeroResult name msg) = JNum 0
    \<and> ar_issues (zeroResult name msg)
        = [\<lparr> itype = IssueError, message = ''Error en analisis de '' @ name @ '': '' @ msg,
             priority = High, category = ''technical'' \<rparr>]
    \<and> (\<forall>zero r0. zero ctx = Returns r0 \<and> validateScore (ar_score r0) = 0
          \<longrightarrow> overallScoreOf (map (runAnalyzer ctx) registry)
              = overallScoreOf (map (runAnalyzer ctx) (pre @ (name, zero) # post)))
    \<and> overallScoreOf (map (runAnalyzer ctx) registry)
        \<le> overallScoreOf (map (runAnalyzer ctx) (pre @ post))"
    using st rm same le by (simp add: zeroResult_def analyzerErrorIssue_def)
  show ?thesis
    unfolding page sc using main acc by - (elim conjE, intro conjI; assumption)
qed

text \<open>
  The theorem on the page with \<open>title\<close> scoring 80, \<open>description\<close> scoring 100 and
  \<open>links\<close> throwing: its score, 82, is the score of the page on which \<open>links\<close> scores
  0, below the 88 of the page without \<open>links\<close>.
\<close>

theorem analyzer_failure_isolated_witness:
  "distinct (map fst registry3)
   \<and> throwing ctx3 = Throws ''Error interno del sistema''
   \<and> res_status page3 = Success
   \<and> resultMapOf (map (runAnalyzer ctx3) registry3)
       = (resultMapOf (map (runAnalyzer ctx3) registry2))
           (''links'' \<mapsto> zeroResult ''links'' ''Error interno del sistema'')
   \<and> res_seoScore page3
       = res_seoScore (analyzeUrl 5000000 (registry2 @ [(''links'', scoring (JNum 0) ''links'')])
                         ''https://example.com/'' False 120
                         (Response True 200 ''<html><title>t</title></html>''))
   \<and> res_seoScore page3 \<le> res_seoScore page2
   \<and> res_seoScore page3 = 82 \<and> res_seoScore page2 = 88
   \<and> (\<exists>S W n W0 n0.
         fold (accumulate (resultMapOf (map (runAnalyzer ctx3) registry3))) weights (0, 0, 0)
           = (S, W, n)
         \<and> fold (accumulate (resultMapOf (map (runAnalyzer ctx3) registry2))) weights (0, 0, 0)
           = (S, W0, n0)
         \<and> W0 < W \<and> n = Suc n0)"
proof -
  have d: "distinct (map fst registry3)" by (simp add: registry3_def registry2_def)
  have r: "registry3 = registry2 @ (''links'', throwing) # []" by (simp add: registry3_def)
  have t: "throwing ctx3 = Throws ''Error interno del sistema''" by (simp add: throwing_def)
  have len: "length ''<html><title>t</title></html>'' \<le> 5000000" by simp
  note th = analyzer_failure_isolated [OF d r trim_html3 len ctx3_def t]
  have z: "scoring (JNum 0) ''links'' ctx3
      = Returns \<lparr> ar_score = JNum 0, ar_issues = [okIssue ''links''],
          ar_data = Some \<lparr> data_issues = Some [okIssue ''links''], data_internalUrls = [],
                             data_sitemap = None \<rparr> \<rparr>"
    by (simp add: scoring_def)
  have a: "res_status page3 = Success" using th by (simp add: page3_def)
  have b: "resultMapOf (map (runAnalyzer ctx3) registry3)
       = (resultMapOf (map (runAnalyzer ctx3) registry2))
           (''links'' \<mapsto> zeroResult ''links'' ''Error interno del sistema'')"
    using th by simp
  have c: "res_seoScore page3
       = res_seoScore (analyzeUrl 5000000 (registry2 @ [(''links'', scoring (JNum 0) ''links'')])
                         ''https://example.com/'' False 120
                         (Response True 200 ''<html><title>t</title></html>''))"
    using th z by (simp add: page3_def)
  have e: "res_seoScore page3 \<le> res_seoScore page2"
    using th by (simp add: page3_def page2_def)
  have g: "res_seoScore page3 = 82" "res_seoScore page2 = 88"
    unfolding page3_combine page2_combine
    by (simp_all add: combineAndConvert_def Let_def score_registry3 score_registry2)
  have w: "(''links'', 2 / 100) \<in> set weights" by (simp add: weights_def)
  have "(23::real) = 23 \<and> (26 / 100 :: real) < 28 / 100 \<and> (3::nat) = Suc 2"
    using th w accumulate_registry3 [of ctx3] accumulate_registry2 [of ctx3] by simp
  have k: "\<exists>S W n W0 n0.
         fold (accumulate (resultMapOf (map (runAnalyzer ctx3) registry3))) weights (0, 0, 0)
           = (S, W, n)
         \<and> fold (accumulate (resultMapOf (map (runAnalyzer ctx3) registry2))) weights (0, 0, 0)
           = (S, W0, n0)
         \<and> W0 < W \<and> n = Suc n0"
    apply (rule exI [of _ "23"], rule exI [of _ "28 / 100"], rule exI [of _ "3"])
    apply (rule exI [of _ "26 / 100"], rule exI [of _ "2"])
    using accumulate_registry3 [of ctx3] accumulate_registry2 [of ctx3] by simp
  show ?thesis using d t a b c e g k by simp
qed

text \<open>
  Claim C2 as stated fails: with \<open>title\<close> scoring 80, \<open>description\<close> scoring 100 and
  \<open>links\<close> throwing, the page is a \<open>Success\<close> with overall score 82, while the two
  analyzers that did not fail give 88 on their own; and the page's issue list is the one
  of the page without the failed analyzer, with no issue added.
\<close>

theorem failed_analyzer_counterexample:
  "res_status page3 = Success
   \<and> res_seoScore page3 = 82
   \<and> res_seoScore page2 = 88
   \<and> res_seoScore page3 \<noteq> res_seoScore page2
   \<and> res_issues page3 = res_issues page2"
proof -
  have "res_seoScore page3 = 82" "res_seoScore page2 = 88"
    unfolding page3_combine page2_combine
    by (simp_all add: combineAndConvert_def Let_def score_registry3 score_registry2)
  moreover have "res_status page3 = Success"
    unfolding page3_combine by (simp add: combineAndConvert_def Let_def)
  moreover have "res_issues page3 = res_issues page2"
    unfolding page3_combine page2_combine by (simp only: issues_registry3 issues_registry2)
  ultimately show ?thesis by simp
qed

section \<open>The platform's \<open>URL\<close> class\<close>

text \<open>
  The \<open>URL\<close> class is a builtin of the platform, not a file of the repository; it is
  modelled here from the WHATWG URL Standard. The model covers absolute \<open>http\<close> and
  \<open>https\<close> URLs written in plain characters:
  \<^item> the scheme, in any letter case, then \<open>:\<close> and any number of slashes;
  \<^item> a host of letters, digits, \<open>-\<close> and \<open>.\<close> whose last label starts with a letter and
    which has no \<open>xn--\<close> label (so no user info, no IPv4 or IPv6 literal, no
    internationalised name); the parser lower-cases it;
  \<^item> an optional port of decimal digits without a leading zero, at most 65535; the
    scheme's default port (80 for \<open>http\<close>, 443 for \<open>https\<close>) is dropped;
  \<^item> a path, a query and a fragment of characters the parser neither percent-encodes
    nor rewrites; the path has no \<open>.\<close> or \<open>..\<close> segment; an empty path becomes \<open>/\<close>.
  On these the functions below give what the standard gives. Elsewhere they give
  \<open>None\<close>, which is the standard's failure for some strings (an empty host, a port
  above 65535) and only the edge of the model for others; no theorem below speaks of a
  string outside the model.
\<close>

record URL =
  url_scheme :: string
  url_hostname :: string
  url_port :: string
  url_pathname :: string
  url_query :: "string option"
  url_fragment :: "string option"

text \<open>The getters \<open>protocol\<close>, \<open>host\<close>, \<open>search\<close>, \<open>hash\<close>, \<open>origin\<close> and \<open>href\<close>.\<close>

definition protocol :: "URL \<Rightarrow> string" where
  "protocol U = url_scheme U @ '':''"

definition host :: "URL \<Rightarrow> string" where
  "host U = url_hostname U @ (if url_port U = [] then [] else '':'' @ url_port U)"

definition search :: "URL \<Rightarrow> string" where
  "search U = (case url_query U of None \<Rightarrow> [] | Some q \<Rightarrow> if q = [] then [] else ''?'' @ q)"

definition hash :: "URL \<Rightarrow> string" where
  "hash U = (case url_fragment U of None \<Rightarrow> [] | Some f \<Rightarrow> if f = [] then [] else ''#'' @ f)"

definition origin :: "URL \<Rightarrow> string" where
  "origin U = protocol U @ ''//'' @ host U"

definition href :: "URL \<Rightarrow> string" where
  "href U = protocol U @ ''//'' @ host U @ url_pathname U
     @ (case url_query U of None \<Rightarrow> [] | Some q \<Rightarrow> ''?'' @ q)
     @ (case url_fragment U of None \<Rightarrow> [] | Some f \<Rightarrow> ''#'' @ f)"

definition isDigit :: "char \<Rightarrow> bool" where
  "isDigit c = (c \<in> set ''0123456789'')"

definition isLower :: "char \<Rightarrow> bool" where
  "isLower c = (c \<in> set ''abcdefghijklmnopqrstuvwxyz'')"

definition isUpper :: "char \<Rightarrow> bool" where
  "isUpper c = (c \<in> set ''ABCDEFGHIJKLMNOPQRSTUVWXYZ'')"

definition toLower :: "char \<Rightarrow> char" where
  "toLower c =
     (case map_of (zip ''ABCDEFGHIJKLMNOPQRSTUVWXYZ'' ''abcdefghijklmnopqrstuvwxyz'') c of
        Some l \<Rightarrow> l
      | None \<Rightarrow> c)"

definition toLowerCase :: "string \<Rightarrow> string" where
  "toLowerCase s = map toLower s"

text \<open>The characters of a modelled host, and the hosts of the model.\<close>

definition isHostChar :: "char \<Rightarrow> bool" where
  "isHostChar c = (isLower c \<or> isUpper c \<or> isDigit c \<or> c = CHR ''-'' \<or> c = CHR ''.'')"

definition lastLabel :: "string \<Rightarrow> string" where
  "lastLabel h = rev (takeWhile (\<lambda>c. c \<noteq> CHR ''.'') (rev h))"

definition modelledHost :: "string \<Rightarrow> bool" where
  "modelledHost h =
     (h \<noteq> [] \<and> list_all isHostChar h
      \<and> (case lastLabel h of [] \<Rightarrow> False | c # cs \<Rightarrow> isLower c \<or> isUpper c)
      \<and> \<not> str_includes (toLowerCase h) ''xn--'')"

text \<open>
  The characters the parser keeps as they are in a path, a query and a fragment: letters,
  digits and the marks \<open>- . _ ~ ! $ & ( ) * + , ; = : @ /\<close>.
\<close>

definition isPlainChar :: "char \<Rightarrow> bool" where
  "isPlainChar c = (isLower c \<or> isUpper c \<or> isDigit c \<or> c \<in> set ''-._~!$&()*+,;=:@/'')"

text \<open>The segments of a path: the pieces between slashes.\<close>

fun segments :: "string \<Rightarrow> string list" where
  "segments [] = [[]]"
| "segments (c # cs) =
     (if c = CHR ''/'' then [] # segments cs
      else (case segments cs of seg # rest \<Rightarrow> (c # seg) # rest | [] \<Rightarrow> [[c]]))"

definition modelledPath :: "string \<Rightarrow> bool" where
  "modelledPath p =
     ((p = [] \<or> hd p = CHR ''/'') \<and> list_all isPlainChar p
      \<and> list_all (\<lambda>seg. seg \<noteq> ''.'' \<and> seg \<noteq> ''..'') (segments p))"

definition modelledText :: "string \<Rightarrow> bool" where
  "modelledText q = list_all isPlainChar q"

text \<open>The value of a string of decimal digits.\<close>

definition digitsValue :: "string \<Rightarrow> nat" where
  "digitsValue ds = fold (\<lambda>c n. 10 * n + (of_char c - 48)) ds 0"

definition defaultPort :: "string \<Rightarrow> string" where
  "defaultPort scheme = (if scheme = ''http'' then ''80'' else ''443'')"

text \<open>
  The port of an authority, given what follows the host (nothing, or a colon and the
  port): a missing, empty or default port is the empty string.
\<close>

definition parsePort :: "string \<Rightarrow> string \<Rightarrow> string option" where
  "parsePort scheme portpart =
     (case portpart of
        [] \<Rightarrow> Some []
      | c # ds \<Rightarrow>
          if ds = [] then Some []
          else if \<not> list_all isDigit ds \<or> hd ds = CHR ''0'' \<or> digitsValue ds > 65535 then None
          else if ds = defaultPort scheme then Some []
          else Some ds)"

definition isAuthorityEnd :: "char \<Rightarrow> bool" where
  "isAuthorityEnd c = (c = CHR ''/'' \<or> c = CHR 0x5C \<or> c = CHR ''?'' \<or> c = CHR ''#'')"

definition isSlash :: "char \<Rightarrow> bool" where
  "isSlash c = (c = CHR ''/'' \<or> c = CHR 0x5C)"

text \<open>
  The path, query and fragment of what follows the authority: the path runs to the first
  \<open>?\<close> or \<open>#\<close>, the query from a \<open>?\<close> to the first \<open>#\<close>, the fragment from the \<open>#\<close>.
\<close>

definition parseTail :: "string \<Rightarrow> (string \<times> string option \<times> string option) option" where
  "parseTail t =
     (let pathpart = takeWhile (\<lambda>c. c \<noteq> CHR ''?'' \<and> c \<noteq> CHR ''#'') t;
          t1 = dropWhile (\<lambda>c. c \<noteq> CHR ''?'' \<and> c \<noteq> CHR ''#'') t;
          querypart = (case t1 of [] \<Rightarrow> None
                       | c # cs \<Rightarrow> if c = CHR ''?''
                                   then Some (takeWhile (\<lambda>c. c \<noteq> CHR ''#'') cs) else None);
          t2 = dropWhile (\<lambda>c. c \<noteq> CHR ''#'') t1;
          fragpart = (case t2 of [] \<Rightarrow> None | c # cs \<Rightarrow> Some cs)
      in if modelledPath pathpart
            \<and> (case querypart of None \<Rightarrow> True | Some q \<Rightarrow> modelledText q)
            \<and> (case fragpart of None \<Rightarrow> True | Some f \<Rightarrow> modelledText f)
         then Some (if pathpart = [] then ''/'' else pathpart, querypart, fragpart)
         else None)"

text \<open>
  A special-scheme URL after \<open>scheme:\<close>: the slashes are skipped, the authority runs to
  the first \<open>/\<close>, \<open>\\<close>, \<open>?\<close> or \<open>#\<close>, and the host and port are split at the colon.
\<close>

definition parseSpecial :: "string \<Rightarrow> string \<Rightarrow> URL option" where
  "parseSpecial scheme rest =
     (let r1 = dropWhile isSlash rest;
          authority = takeWhile (\<lambda>c. \<not> isAuthorityEnd c) r1;
          t = dropWhile (\<lambda>c. \<not> isAuthorityEnd c) r1;
          hostpart = takeWhile (\<lambda>c. c \<noteq> CHR '':'') authority;
          portpart = dropWhile (\<lambda>c. c \<noteq> CHR '':'') authority
      in if \<not> modelledHost hostpart then None
         else case parsePort scheme portpart of
                None \<Rightarrow> None
              | Some p \<Rightarrow>
                  (case parseTail t of
                     None \<Rightarrow> None
                   | Some (path, q, f) \<Rightarrow>
                       Some \<lparr> url_scheme = scheme, url_hostname = toLowerCase hostpart,
                              url_port = p, url_pathname = path, url_query = q,
                              url_fragment = f \<rparr>))"

text \<open>\<open>new URL(s)\<close>.\<close>

definition URL_new :: "string \<Rightarrow> URL option" where
  "URL_new s =
     (let scheme = toLowerCase (takeWhile (\<lambda>c. c \<noteq> CHR '':'') s);
          rest = dropWhile (\<lambda>c. c \<noteq> CHR '':'') s
      in if (scheme = ''http'' \<or> scheme = ''https'') \<and> rest \<noteq> []
         then parseSpecial scheme (tl rest)
         else None)"

section \<open>URL normalization of the link analyzer\<close>

text \<open>\<open>url.replace(/^(www\.|https?:\/\/)/, '')\<close> of \<open>normalizeUrl\<close>.\<close>

definition stripPrefixes :: "string \<Rightarrow> string" where
  "stripPrefixes url =
     (if prefix ''www.'' url then drop 4 url
      else if prefix ''https://'' url then drop 8 url
      else if prefix ''http://'' url then drop 7 url
      else url)"

text \<open>
  \<open>normalizeUrl\<close> of \<open>utils/url-utils.ts\<close>; \<open>None\<close> is its \<open>throw\<close>. It strips a
  leading \<open>www.\<close> or scheme, puts \<open>https://\<close> in front of what does not start with a
  scheme now, and returns the \<open>href\<close> of the parsed URL if the host name has three
  characters and a dot.
\<close>

definition normalizeUrl :: "string \<Rightarrow> string option" where
  "normalizeUrl url0 =
     (let url1 = trim url0;
          url2 = stripPrefixes url1;
          url3 = (if \<not> prefix ''http://'' url2 \<and> \<not> prefix ''https://'' url2
                  then ''https://'' @ url2 else url2)
      in case URL_new url3 of
           None \<Rightarrow> None
         | Some urlObj \<Rightarrow>
             if url_hostname urlObj = [] \<or> length (url_hostname urlObj) < 3 then None
             else if \<not> str_includes (url_hostname urlObj) ''.'' then None
             else Some (href urlObj))"

text \<open>\<open>pathname.replace(/\/$/, '') || '/'\<close>.\<close>

definition pathWithoutTrailingSlash :: "string \<Rightarrow> string" where
  "pathWithoutTrailingSlash p =
     (let stripped = (if p \<noteq> [] \<and> last p = CHR ''/'' then butlast p else p)
      in if stripped = [] then ''/'' else stripped)"

text \<open>
  The deduplication key of \<open>LinksAnalyzer.analyze\<close> (lines 79-81), computed from a
  normalized URL.
\<close>

definition deduplicationKey :: "string \<Rightarrow> string option" where
  "deduplicationKey normalizedInternalUrl =
     (case URL_new normalizedInternalUrl of
        None \<Rightarrow> None
      | Some urlObj \<Rightarrow>
          Some (protocol urlObj @ ''//'' @ host urlObj
                @ pathWithoutTrailingSlash (url_pathname urlObj) @ search urlObj @ hash urlObj))"

text \<open>The key under which link discovery files a URL: \<open>normalizeUrl\<close>, then the key.\<close>

definition linkKey :: "string \<Rightarrow> string option" where
  "linkKey u = (case normalizeUrl u of None \<Rightarrow> None | Some n \<Rightarrow> deduplicationKey n)"

text \<open>The spelling of a URL from its parts.\<close>

definition portText :: "string option \<Rightarrow> string" where
  "portText port = (case port of None \<Rightarrow> [] | Some ds \<Rightarrow> '':'' @ ds)"

definition tailText :: "string option \<Rightarrow> string option \<Rightarrow> string" where
  "tailText q f = (case q of None \<Rightarrow> [] | Some qs \<Rightarrow> ''?'' @ qs)
                  @ (case f of None \<Rightarrow> [] | Some fs \<Rightarrow> ''#'' @ fs)"

definition spell ::
  "string \<Rightarrow> string \<Rightarrow> string option \<Rightarrow> string \<Rightarrow> string option \<Rightarrow> string option \<Rightarrow> string" where
  "spell scheme h port path q f = scheme @ ''://'' @ h @ portText port @ path @ tailText q f"

definition modelledPort :: "string \<Rightarrow> bool" where
  "modelledPort ds =
     (ds \<noteq> [] \<and> list_all isDigit ds \<and> hd ds \<noteq> CHR ''0'' \<and> digitsValue ds \<le> 65535)"

definition modelledQuery :: "string option \<Rightarrow> bool" where
  "modelledQuery q = (case q of None \<Rightarrow> True | Some qs \<Rightarrow> modelledText qs)"

text \<open>The port a parsed URL keeps of a written one: none for the default port of the scheme.\<close>

definition portOf :: "string \<Rightarrow> string option \<Rightarrow> string" where
  "portOf scheme port =
     (case port of None \<Rightarrow> [] | Some ds \<Rightarrow> if ds = defaultPort scheme then [] else ds)"

text \<open>A written port of the model, if there is one.\<close>

definition modelledPortOpt :: "string option \<Rightarrow> bool" where
  "modelledPortOpt port = (case port of None \<Rightarrow> True | Some ds \<Rightarrow> modelledPort ds)"

text \<open>The spelling of a URL after its scheme and \<open>://\<close>.\<close>

definition restText :: "string \<Rightarrow> string option \<Rightarrow> string \<Rightarrow> string option \<Rightarrow> string option \<Rightarrow> string" where
  "restText h port path q f = h @ portText port @ path @ tailText q f"

text \<open>The port an \<open>https\<close> URL keeps: none for a missing port and for 443.\<close>

definition httpsPort :: "string option \<Rightarrow> string option" where
  "httpsPort port = (if port = Some ''443'' then None else port)"

text \<open>The host name test of \<open>normalizeUrl\<close>: three characters and a dot.\<close>

definition hostOk :: "string \<Rightarrow> bool" where
  "hostOk h = (3 \<le> length h \<and> str_includes (toLowerCase h) ''.'')"

text \<open>The \<open>search\<close> and \<open>hash\<close> getters on a written query and fragment: empty for an empty one.\<close>

definition searchText :: "string option \<Rightarrow> string" where
  "searchText q = (case q of None \<Rightarrow> [] | Some qs \<Rightarrow> if qs = [] then [] else ''?'' @ qs)"

definition hashText :: "string option \<Rightarrow> string" where
  "hashText f = (case f of None \<Rightarrow> [] | Some fs \<Rightarrow> if fs = [] then [] else ''#'' @ fs)"

subsection \<open>Parsing a spelled URL\<close>

lemma split_at:
  "list_all P xs \<Longrightarrow> ys = [] \<or> \<not> P (hd ys)
     \<Longrightarrow> takeWhile P (xs @ ys) = xs \<and> dropWhile P (xs @ ys) = ys"
  by (induction xs) (auto simp: takeWhile_eq_Nil_iff dropWhile_eq_self_iff)

lemma hostChar_facts:
  "isHostChar c \<Longrightarrow> c \<noteq> CHR '':'' \<and> \<not> isAuthorityEnd c \<and> \<not> isSlash c \<and> \<not> isWhiteSpace c"
  unfolding isHostChar_def isLower_def isUpper_def isDigit_def isAuthorityEnd_def isSlash_def
    isWhiteSpace_def
  by auto

lemma digit_facts:
  "isDigit c \<Longrightarrow> c \<noteq> CHR '':'' \<and> \<not> isAuthorityEnd c \<and> \<not> isWhiteSpace c \<and> c \<noteq> CHR ''/''"
  unfolding isDigit_def isAuthorityEnd_def isWhiteSpace_def by auto

lemma plainChar_facts:
  "isPlainChar c \<Longrightarrow> c \<noteq> CHR ''?'' \<and> c \<noteq> CHR ''#'' \<and> \<not> isWhiteSpace c"
  unfolding isPlainChar_def isLower_def isUpper_def isDigit_def isWhiteSpace_def by auto

lemma tailText_start: "tailText q f = [] \<or> hd (tailText q f) = CHR ''?'' \<or> hd (tailText q f) = CHR ''#''"
  by (auto simp: tailText_def split: option.splits)

lemma parseTail_spell:
  assumes "modelledPath path" "modelledQuery q" "modelledQuery f"
  shows "parseTail (path @ tailText q f) = Some (if path = [] then ''/'' else path, q, f)"
proof -
  let ?P = "\<lambda>c. c \<noteq> CHR ''?'' \<and> c \<noteq> CHR ''#''"
  have pl: "list_all ?P path"
    using assms(1) plainChar_facts by (auto simp: modelledPath_def list_all_iff)
  have st: "tailText q f = [] \<or> \<not> ?P (hd (tailText q f))"
    using tailText_start [of q f] by auto
  have tk: "takeWhile ?P (path @ tailText q f) = path"
    and dr: "dropWhile ?P (path @ tailText q f) = tailText q f"
    using split_at [OF pl st] by simp_all
  let ?ft = "case f of None \<Rightarrow> [] | Some fs \<Rightarrow> ''#'' @ fs"
  have fst: "?ft = [] \<or> \<not> (hd ?ft \<noteq> CHR ''#'')" by (auto split: option.splits)
  have qpart: "(case tailText q f of [] \<Rightarrow> None
                | c # cs \<Rightarrow> if c = CHR ''?'' then Some (takeWhile (\<lambda>c. c \<noteq> CHR ''#'') cs) else None) = q"
  proof (cases q)
    case None
    then show ?thesis by (auto simp: tailText_def split: option.splits)
  next
    case (Some qs)
    then have "list_all (\<lambda>c. c \<noteq> CHR ''#'') qs"
      using assms(2) plainChar_facts by (auto simp: modelledQuery_def modelledText_def list_all_iff)
    from split_at [OF this fst] show ?thesis using Some by (simp add: tailText_def)
  qed
  have t2: "dropWhile (\<lambda>c. c \<noteq> CHR ''#'') (tailText q f) = ?ft"
  proof (cases q)
    case None
    then show ?thesis by (auto simp: tailText_def split: option.splits)
  next
    case (Some qs)
    then have "list_all (\<lambda>c. c \<noteq> CHR ''#'') qs"
      using assms(2) plainChar_facts by (auto simp: modelledQuery_def modelledText_def list_all_iff)
    from split_at [OF this fst] show ?thesis using Some by (simp add: tailText_def)
  qed
  have fpart: "(case ?ft of [] \<Rightarrow> None | c # cs \<Rightarrow> Some cs) = f"
    by (auto split: option.splits)
  have ok: "(case q of None \<Rightarrow> True | Some q \<Rightarrow> modelledText q)"
    "(case f of None \<Rightarrow> True | Some q \<Rightarrow> modelledText q)"
    using assms(2,3) by (simp_all add: modelledQuery_def)
  show ?thesis
    unfolding parseTail_def Let_def tk dr qpart t2 fpart
    using assms(1) ok by simp
qed

lemma parsePort_spell:
  "modelledPortOpt port \<Longrightarrow> parsePort scheme (portText port) = Some (portOf scheme port)"
  by (cases port)
     (auto simp: modelledPortOpt_def modelledPort_def parsePort_def portText_def portOf_def)

lemma portText_chars: "modelledPortOpt port \<Longrightarrow> list_all (\<lambda>c. \<not> isAuthorityEnd c) (portText port)"
  using digit_facts
  by (cases port)
     (auto simp: modelledPortOpt_def modelledPort_def portText_def list_all_iff isAuthorityEnd_def)

lemma portText_start: "portText port = [] \<or> \<not> (hd (portText port) \<noteq> CHR '':'')"
  by (cases port) (simp_all add: portText_def)

lemma rest_start:
  assumes "modelledPath path"
  shows "path @ tailText q f = [] \<or> \<not> (\<not> isAuthorityEnd (hd (path @ tailText q f)))"
proof (cases path)
  case Nil
  then show ?thesis using tailText_start [of q f] by (auto simp: isAuthorityEnd_def)
next
  case (Cons c cs)
  then show ?thesis using assms by (auto simp: modelledPath_def isAuthorityEnd_def)
qed

lemma parseSpecial_spell:
  assumes "modelledHost h" "modelledPortOpt port" "modelledPath path"
    and "modelledQuery q" "modelledQuery f" "list_all isSlash slashes"
  shows "parseSpecial scheme (slashes @ h @ portText port @ path @ tailText q f)
     = Some \<lparr> url_scheme = scheme, url_hostname = toLowerCase h, url_port = portOf scheme port,
              url_pathname = (if path = [] then ''/'' else path), url_query = q,
              url_fragment = f \<rparr>"
proof -
  let ?t = "path @ tailText q f"
  have hc: "list_all isHostChar h" "h \<noteq> []" using assms(1) by (simp_all add: modelledHost_def)
  have "\<not> isSlash (hd h)" using hc hostChar_facts by (cases h) auto
  then have "h @ portText port @ ?t = [] \<or> \<not> isSlash (hd (h @ portText port @ ?t))"
    using hc(2) by simp
  from split_at [OF assms(6) this]
  have r1: "dropWhile isSlash (slashes @ h @ portText port @ path @ tailText q f)
      = (h @ portText port) @ ?t" by simp
  have "list_all (\<lambda>c. \<not> isAuthorityEnd c) (h @ portText port)"
    using hc(1) hostChar_facts portText_chars [OF assms(2)] by (auto simp: list_all_iff)
  from split_at [OF this rest_start [OF assms(3)]]
  have au: "takeWhile (\<lambda>c. \<not> isAuthorityEnd c) ((h @ portText port) @ ?t) = h @ portText port"
    and t: "dropWhile (\<lambda>c. \<not> isAuthorityEnd c) ((h @ portText port) @ ?t) = ?t"
    by simp_all
  have "list_all (\<lambda>c. c \<noteq> CHR '':'') h" using hc(1) hostChar_facts by (auto simp: list_all_iff)
  from split_at [OF this portText_start]
  have hp: "takeWhile (\<lambda>c. c \<noteq> CHR '':'') (h @ portText port) = h"
    and pp: "dropWhile (\<lambda>c. c \<noteq> CHR '':'') (h @ portText port) = portText port"
    by simp_all
  show ?thesis
    unfolding parseSpecial_def Let_def r1 au t hp pp
    using assms(1) parsePort_spell [OF assms(2)] parseTail_spell [OF assms(3,4,5)]
    by simp
qed

lemma URL_new_spell:
  assumes "scheme = ''http'' \<or> scheme = ''https''"
    and "modelledHost h" "modelledPortOpt port" "modelledPath path"
    and "modelledQuery q" "modelledQuery f"
  shows "URL_new (spell scheme h port path q f)
     = Some \<lparr> url_scheme = scheme, url_hostname = toLowerCase h, url_port = portOf scheme port,
              url_pathname = (if path = [] then ''/'' else path), url_query = q,
              url_fragment = f \<rparr>"
proof -
  let ?r = "h @ portText port @ path @ tailText q f"
  have sl: "list_all isSlash ''//''" by (simp add: isSlash_def)
  have ps: "parseSpecial scheme (''//'' @ ?r)
     = Some \<lparr> url_scheme = scheme, url_hostname = toLowerCase h, url_port = portOf scheme port,
              url_pathname = (if path = [] then ''/'' else path), url_query = q,
              url_fragment = f \<rparr>"
    by (rule parseSpecial_spell [OF assms(2-6) sl])
  have lw: "toLowerCase ''http'' = ''http''" "toLowerCase ''https'' = ''https''"
    by (simp_all add: toLowerCase_def toLower_def)
  from assms(1) show ?thesis
  proof
    assume s: "scheme = ''http''"
    have "URL_new (''http://'' @ ?r) = parseSpecial ''http'' (''//'' @ ?r)"
      by (simp add: URL_new_def lw)
    then show ?thesis using ps s by (simp add: spell_def)
  next
    assume s: "scheme = ''https''"
    have "URL_new (''https://'' @ ?r) = parseSpecial ''https'' (''//'' @ ?r)"
      by (simp add: URL_new_def lw)
    then show ?thesis using ps s by (simp add: spell_def)
  qed
qed

lemma toLower_cases:
  "isUpper c \<Longrightarrow> isLower (toLower c)" "\<not> isUpper c \<Longrightarrow> toLower c = c"
  unfolding toLower_def isUpper_def isLower_def by auto

lemma lower_not_upper: "isLower c \<Longrightarrow> \<not> isUpper c"
  unfolding isUpper_def isLower_def by auto

lemma toLower_idem: "toLower (toLower c) = toLower c"
  using toLower_cases lower_not_upper by (cases "isUpper c") auto

lemma toLowerCase_idem: "toLowerCase (toLowerCase s) = toLowerCase s"
  by (simp add: toLowerCase_def toLower_idem)

lemma toLower_hostChar: "isHostChar c \<Longrightarrow> isHostChar (toLower c)"
  using toLower_cases [of c] by (cases "isUpper c") (auto simp: isHostChar_def)

lemma toLower_dot: "(toLower c = CHR ''.'') = (c = CHR ''.'')"
proof (cases "isUpper c")
  case True
  then have "isLower (toLower c)" by (rule toLower_cases)
  then have "toLower c \<noteq> CHR ''.''" by (auto simp: isLower_def)
  moreover have "c \<noteq> CHR ''.''" using True by (auto simp: isUpper_def)
  ultimately show ?thesis by simp
next
  case False
  then show ?thesis by (simp add: toLower_cases)
qed

lemma takeWhile_toLower:
  "takeWhile (\<lambda>c. c \<noteq> CHR ''.'') (map toLower s) = map toLower (takeWhile (\<lambda>c. c \<noteq> CHR ''.'') s)"
  by (induction s) (simp_all add: toLower_dot)

lemma lastLabel_toLower: "lastLabel (toLowerCase h) = toLowerCase (lastLabel h)"
  unfolding lastLabel_def toLowerCase_def
  by (simp add: rev_map takeWhile_toLower)

lemma toLower_letter: "isLower c \<or> isUpper c \<Longrightarrow> isLower (toLower c) \<or> isUpper (toLower c)"
  using toLower_cases [of c] by (cases "isUpper c") auto

lemma modelledHost_lower: "modelledHost h \<Longrightarrow> modelledHost (toLowerCase h)"
proof -
  assume m: "modelledHost h"
  then obtain c cs where l: "lastLabel h = c # cs" "isLower c \<or> isUpper c"
    by (auto simp: modelledHost_def split: list.splits)
  have "lastLabel (toLowerCase h) = toLowerCase (c # cs)"
    unfolding lastLabel_toLower l(1) ..
  then have "lastLabel (toLowerCase h) = toLower c # toLowerCase cs"
    by (simp add: toLowerCase_def)
  moreover have "list_all isHostChar (toLowerCase h)"
    using m toLower_hostChar by (auto simp: modelledHost_def toLowerCase_def list_all_iff)
  moreover have "toLowerCase h \<noteq> []" using m by (simp add: modelledHost_def toLowerCase_def)
  ultimately show ?thesis
    using m toLower_letter [OF l(2)] by (simp add: modelledHost_def toLowerCase_idem)
qed

lemma trim_plain: "list_all (\<lambda>c. \<not> isWhiteSpace c) s \<Longrightarrow> trim s = s"
proof (cases s)
  case Nil
  then show ?thesis by (simp add: trim_def)
next
  case (Cons c cs)
  assume a: "list_all (\<lambda>c. \<not> isWhiteSpace c) s"
  then have "\<not> isWhiteSpace (hd s)" using Cons by simp
  then have d1: "dropWhile isWhiteSpace s = s" by (simp add: dropWhile_eq_self_iff)
  have ne: "s \<noteq> []" using Cons by simp
  then have "last s \<in> set s" by simp
  then have "\<not> isWhiteSpace (last s)" using a by (auto simp: list_all_iff)
  then have "\<not> isWhiteSpace (hd (rev s))" using ne by (simp add: hd_rev)
  then have d2: "dropWhile isWhiteSpace (rev s) = rev s" by (simp add: dropWhile_eq_self_iff)
  show ?thesis unfolding trim_def d1 d2 by simp
qed

lemma restText_plain:
  assumes "modelledHost h" "modelledPortOpt port" "modelledPath path"
    and "modelledQuery q" "modelledQuery f"
  shows "list_all (\<lambda>c. \<not> isWhiteSpace c) (restText h port path q f)"
proof -
  have "list_all (\<lambda>c. \<not> isWhiteSpace c) h"
    using assms(1) hostChar_facts by (auto simp: modelledHost_def list_all_iff)
  moreover have "list_all (\<lambda>c. \<not> isWhiteSpace c) (portText port)"
    using assms(2) digit_facts
    by (cases port) (auto simp: modelledPortOpt_def modelledPort_def portText_def list_all_iff isWhiteSpace_def)
  moreover have "list_all (\<lambda>c. \<not> isWhiteSpace c) path"
    using assms(3) plainChar_facts by (auto simp: modelledPath_def list_all_iff)
  moreover have "list_all (\<lambda>c. \<not> isWhiteSpace c) (tailText q f)"
    using assms(4,5) plainChar_facts
    by (cases q; cases f)
       (auto simp: modelledQuery_def modelledText_def tailText_def list_all_iff isWhiteSpace_def)
  ultimately show ?thesis by (simp add: restText_def)
qed

lemma after_host_start:
  assumes "modelledPortOpt port" "modelledPath path"
  shows "portText port @ path @ tailText q f = []
       \<or> \<not> isHostChar (hd (portText port @ path @ tailText q f))"
proof (cases port)
  case (Some ds)
  then show ?thesis
    by (simp add: portText_def isHostChar_def isLower_def isUpper_def isDigit_def)
next
  case None
  show ?thesis
  proof (cases path)
    case Nil
    then show ?thesis
      using None tailText_start [of q f]
      by (auto simp: portText_def isHostChar_def isLower_def isUpper_def isDigit_def)
  next
    case (Cons c cs)
    then have "c = CHR ''/''" using assms(2) by (simp add: modelledPath_def)
    then show ?thesis
      using None Cons
      by (simp add: portText_def isHostChar_def isLower_def isUpper_def isDigit_def)
  qed
qed

lemma port_not_slashes:
  assumes "modelledPortOpt port" "modelledPath path"
  shows "\<not> prefix ''://'' (portText port @ path @ tailText q f)"
proof (cases port)
  case None
  show ?thesis
  proof (cases path)
    case Nil
    then show ?thesis using None tailText_start [of q f]
      by (cases "tailText q f") (auto simp: portText_def)
  next
    case (Cons c cs)
    then have "c = CHR ''/''" using assms(2) by (simp add: modelledPath_def)
    then show ?thesis using None Cons by (simp add: portText_def)
  qed
next
  case (Some ds)
  then obtain d ds' where ds: "ds = d # ds'" "isDigit d"
    using assms(1) by (cases ds) (auto simp: modelledPortOpt_def modelledPort_def)
  then have "d \<noteq> CHR ''/''" using digit_facts by blast
  then show ?thesis using Some ds by (simp add: portText_def)
qed

lemma rest_no_scheme:
  assumes "modelledHost h" "modelledPortOpt port" "modelledPath path"
  shows "\<not> prefix ''http://'' (restText h port path q f)"
    and "\<not> prefix ''https://'' (restText h port path q f)"
proof -
  let ?x = "portText port @ path @ tailText q f"
  have hc: "list_all isHostChar h" using assms(1) by (simp add: modelledHost_def)
  have tw: "takeWhile isHostChar (h @ ?x) = h" and dw: "dropWhile isHostChar (h @ ?x) = ?x"
    using split_at [OF hc after_host_start [OF assms(2,3)]] by simp_all
  have hch: "isHostChar CHR ''h''" "isHostChar CHR ''t''" "isHostChar CHR ''p''" "isHostChar CHR ''s''"
    "\<not> isHostChar CHR '':''"
    by (simp_all add: isHostChar_def isLower_def isUpper_def isDigit_def)
  show "\<not> prefix ''http://'' (restText h port path q f)"
  proof
    assume "prefix ''http://'' (restText h port path q f)"
    then obtain z where z: "h @ ?x = ''http://'' @ z" by (auto simp: prefix_def restText_def)
    have "dropWhile isHostChar (''http://'' @ z) = ''://'' @ z" using hch by simp
    then have "?x = ''://'' @ z" using dw z by simp
    then show False using port_not_slashes [OF assms(2,3), of q f] by (simp add: prefix_def)
  qed
  show "\<not> prefix ''https://'' (restText h port path q f)"
  proof
    assume "prefix ''https://'' (restText h port path q f)"
    then obtain z where z: "h @ ?x = ''https://'' @ z" by (auto simp: prefix_def restText_def)
    have "dropWhile isHostChar (''https://'' @ z) = ''://'' @ z" using hch by simp
    then have "?x = ''://'' @ z" using dw z by simp
    then show False using port_not_slashes [OF assms(2,3), of q f] by (simp add: prefix_def)
  qed
qed

lemma stripPrefixes_spell:
  "scheme = ''http'' \<or> scheme = ''https''
     \<Longrightarrow> stripPrefixes (spell scheme h port path q f) = restText h port path q f"
  by (auto simp: stripPrefixes_def spell_def restText_def)

lemma spell_plain:
  assumes "scheme = ''http'' \<or> scheme = ''https''"
    and "modelledHost h" "modelledPortOpt port" "modelledPath path"
    and "modelledQuery q" "modelledQuery f"
  shows "list_all (\<lambda>c. \<not> isWhiteSpace c) (spell scheme h port path q f)"
proof -
  have "spell scheme h port path q f = scheme @ ''://'' @ restText h port path q f"
    by (simp add: spell_def restText_def)
  moreover have "list_all (\<lambda>c. \<not> isWhiteSpace c) (scheme @ ''://'')"
    using assms(1) by (auto simp: isWhiteSpace_def)
  ultimately show ?thesis using restText_plain [OF assms(2-6)] by simp
qed

lemma href_spell:
  "modelledPortOpt port \<Longrightarrow> href \<lparr> url_scheme = ''https'', url_hostname = h, url_port = portOf ''https'' port,
          url_pathname = p, url_query = q, url_fragment = f \<rparr>
     = spell ''https'' h (httpsPort port) p q f"
  by (cases port)
     (auto simp: href_def protocol_def host_def spell_def portText_def tailText_def
        portOf_def httpsPort_def defaultPort_def modelledPortOpt_def modelledPort_def)

lemma normalizeUrl_spell:
  assumes "scheme = ''http'' \<or> scheme = ''https''"
    and "modelledHost h" "modelledPortOpt port" "modelledPath path"
    and "modelledQuery q" "modelledQuery f"
  shows "normalizeUrl (spell scheme h port path q f)
     = (if hostOk h
        then Some (spell ''https'' (toLowerCase h) (httpsPort port)
                     (if path = [] then ''/'' else path) q f)
        else None)"
proof -
  let ?r = "restText h port path q f"
  have t: "trim (spell scheme h port path q f) = spell scheme h port path q f"
    by (rule trim_plain [OF spell_plain [OF assms]])
  have s: "stripPrefixes (spell scheme h port path q f) = ?r"
    by (rule stripPrefixes_spell [OF assms(1)])
  have n: "\<not> prefix ''http://'' ?r \<and> \<not> prefix ''https://'' ?r"
    using rest_no_scheme [OF assms(2,3,4)] by simp
  have u: "(if \<not> prefix ''http://'' ?r \<and> \<not> prefix ''https://'' ?r
            then ''https://'' @ ?r else ?r) = spell ''https'' h port path q f"
    using n by (simp add: spell_def restText_def)
  have p: "URL_new (spell ''https'' h port path q f)
     = Some \<lparr> url_scheme = ''https'', url_hostname = toLowerCase h,
              url_port = portOf ''https'' port,
              url_pathname = (if path = [] then ''/'' else path), url_query = q,
              url_fragment = f \<rparr>"
    by (rule URL_new_spell [OF _ assms(2-6)]) simp
  have ne: "toLowerCase h \<noteq> []" using assms(2) by (simp add: modelledHost_def toLowerCase_def)
  show ?thesis
    unfolding normalizeUrl_def Let_def t s u p
    using ne by (simp add: href_spell [OF assms(3)] hostOk_def toLowerCase_def)
qed

lemma httpsPort_modelled: "modelledPortOpt port \<Longrightarrow> modelledPortOpt (httpsPort port)"
  by (simp add: httpsPort_def modelledPortOpt_def)

lemma httpsPort_idem: "httpsPort (httpsPort port) = httpsPort port"
  by (simp add: httpsPort_def)

lemma host_portText:
  "modelledPortOpt port \<Longrightarrow>
   host \<lparr> url_scheme = s, url_hostname = h, url_port = portOf ''https'' port,
          url_pathname = p, url_query = q, url_fragment = f \<rparr>
     = h @ portText (httpsPort port)"
  by (cases port)
     (auto simp: host_def portText_def portOf_def httpsPort_def defaultPort_def
        modelledPortOpt_def modelledPort_def)

lemma portOf_httpsPort: "portOf ''https'' (httpsPort port) = portOf ''https'' port"
  by (cases port) (auto simp: portOf_def httpsPort_def defaultPort_def)

lemma deduplicationKey_spell:
  assumes "modelledHost h" "modelledPortOpt port" "modelledPath path" "path \<noteq> []"
    and "modelledQuery q" "modelledQuery f"
  shows "deduplicationKey (spell ''https'' h port path q f)
     = Some (''https://'' @ toLowerCase h @ portText (httpsPort port)
             @ pathWithoutTrailingSlash path @ searchText q @ hashText f)"
proof -
  have p: "URL_new (spell ''https'' h port path q f)
     = Some \<lparr> url_scheme = ''https'', url_hostname = toLowerCase h,
              url_port = portOf ''https'' port,
              url_pathname = path, url_query = q, url_fragment = f \<rparr>"
    using URL_new_spell [OF _ assms(1,2,3,5,6), of "''https''"] assms(4) by simp
  show ?thesis
    unfolding deduplicationKey_def p
    by (simp add: host_portText [OF assms(2)] protocol_def search_def hash_def
        searchText_def hashText_def)
qed

lemma modelledPath_root: "modelledPath ''/''"
  by (simp add: modelledPath_def isPlainChar_def)

lemma linkKey_spell:
  assumes "scheme = ''http'' \<or> scheme = ''https''"
    and "modelledHost h" "modelledPortOpt port" "modelledPath path"
    and "modelledQuery q" "modelledQuery f"
  shows "linkKey (spell scheme h port path q f)
     = (if hostOk h
        then Some (''https://'' @ toLowerCase h @ portText (httpsPort port)
                   @ pathWithoutTrailingSlash (if path = [] then ''/'' else path)
                   @ searchText q @ hashText f)
        else None)"
proof -
  let ?p = "if path = [] then ''/'' else path"
  have mp: "modelledPath ?p" "?p \<noteq> []" using assms(4) modelledPath_root by auto
  have "deduplicationKey (spell ''https'' (toLowerCase h) (httpsPort port) ?p q f)
     = Some (''https://'' @ toLowerCase (toLowerCase h) @ portText (httpsPort (httpsPort port))
             @ pathWithoutTrailingSlash ?p @ searchText q @ hashText f)"
    by (rule deduplicationKey_spell [OF modelledHost_lower [OF assms(2)]
          httpsPort_modelled [OF assms(3)] mp assms(5,6)])
  then show ?thesis
    unfolding linkKey_def normalizeUrl_spell [OF assms]
    by (simp add: toLowerCase_idem httpsPort_idem)
qed

lemma segments_nonempty: "segments p \<noteq> []"
  by (induction p) (auto split: list.splits)

lemma segments_slash: "segments (p @ ''/'') = segments p @ [[]]"
proof (induction p)
  case Nil
  then show ?case by simp
next
  case (Cons c p)
  obtain seg rest where s: "segments p = seg # rest"
    using segments_nonempty [of p] by (cases "segments p") auto
  show ?case using Cons s by simp
qed

lemma modelledPath_slash: "modelledPath path \<Longrightarrow> modelledPath (path @ ''/'')"
  by (cases path) (auto simp: modelledPath_def segments_slash isPlainChar_def)

lemma pathWithoutTrailingSlash_slash:
  "path = [] \<or> last path \<noteq> CHR ''/''
     \<Longrightarrow> pathWithoutTrailingSlash (path @ ''/'')
         = pathWithoutTrailingSlash (if path = [] then ''/'' else path)"
  by (auto simp: pathWithoutTrailingSlash_def)

lemma modelled_example: "modelledHost ''example.com''" "modelledPath ''/a''" "hostOk ''example.com''"
  "modelledPortOpt (Some ''80'')" "modelledPortOpt None" "modelledQuery None"
  by (simp_all add: modelledHost_def isHostChar_def isLower_def isUpper_def isDigit_def
      lastLabel_def toLowerCase_def toLower_def modelledPath_def isPlainChar_def hostOk_def
      modelledPortOpt_def modelledPort_def digitsValue_def modelledQuery_def)

text \<open>
  Claim C8, as the code has it. Two URLs of the model (scheme \<open>http\<close> or \<open>https\<close>)
  that differ only by one trailing slash on the path (the path of the one without it does
  not end in a slash), or only by the presence of port 443, get the same deduplication
  key from link discovery, and the key exists when the host name passes the test of
  \<open>normalizeUrl\<close>. Port 443 is the default port of \<open>https\<close>, the scheme
  \<open>normalizeUrl\<close> puts on every URL; the default port of an \<open>http\<close> URL is not
  stripped.
\<close>

theorem link_key_slash_and_443:
  assumes "scheme = ''http'' \<or> scheme = ''https''"
    and "modelledHost h" "modelledPortOpt port" "modelledPath path"
    and "modelledQuery q" "modelledQuery f"
    and "path = [] \<or> last path \<noteq> CHR ''/''"
  shows "linkKey (spell scheme h port (path @ ''/'') q f) = linkKey (spell scheme h port path q f)
    \<and> linkKey (spell scheme h (Some ''443'') path q f) = linkKey (spell scheme h None path q f)
    \<and> (hostOk h \<longrightarrow> linkKey (spell scheme h port path q f) \<noteq> None)"
proof -
  have a: "linkKey (spell scheme h port (path @ ''/'') q f) = linkKey (spell scheme h port path q f)"
    unfolding linkKey_spell [OF assms(1-3) modelledPath_slash [OF assms(4)] assms(5,6)]
      linkKey_spell [OF assms(1-6)]
    using pathWithoutTrailingSlash_slash [OF assms(7)] by simp
  have m443: "modelledPortOpt (Some ''443'')"
    by (simp add: modelledPortOpt_def modelledPort_def isDigit_def digitsValue_def)
  have mnone: "modelledPortOpt None" by (simp add: modelledPortOpt_def)
  have b: "linkKey (spell scheme h (Some ''443'') path q f) = linkKey (spell scheme h None path q f)"
    unfolding linkKey_spell [OF assms(1,2) m443 assms(4-6)]
      linkKey_spell [OF assms(1,2) mnone assms(4-6)]
    by (simp add: httpsPort_def)
  have c: "hostOk h \<longrightarrow> linkKey (spell scheme h port path q f) \<noteq> None"
    unfolding linkKey_spell [OF assms(1-6)] by simp
  show ?thesis using a b c by simp
qed

theorem link_key_slash_and_443_witness:
  "modelledHost ''example.com'' \<and> modelledPath ''/a'' \<and> hostOk ''example.com''
   \<and> linkKey ''https://example.com/a/'' = linkKey ''https://example.com/a''
   \<and> linkKey ''https://example.com:443/a'' = linkKey ''https://example.com/a''
   \<and> linkKey ''https://example.com/a'' \<noteq> None"
proof -
  have l: "last ''/a'' \<noteq> CHR ''/''" by simp
  have "linkKey (spell ''https'' ''example.com'' None (''/a'' @ ''/'') None None)
          = linkKey (spell ''https'' ''example.com'' None ''/a'' None None)
    \<and> linkKey (spell ''https'' ''example.com'' (Some ''443'') ''/a'' None None)
          = linkKey (spell ''https'' ''example.com'' None ''/a'' None None)
    \<and> (hostOk ''example.com''
          \<longrightarrow> linkKey (spell ''https'' ''example.com'' None ''/a'' None None) \<noteq> None)"
    by (rule link_key_slash_and_443 [OF _ modelled_example(1,5,2,6,6)]) (simp_all add: l)
  then show ?thesis
    using modelled_example by (simp add: spell_def portText_def tailText_def)
qed

text \<open>
  Claim C8 as stated fails for the default port of \<open>http\<close>: \<open>http://example.com/a\<close>
  and \<open>http://example.com:80/a\<close> differ only by the presence of port 80, and their
  keys differ, since \<open>normalizeUrl\<close> has made both \<open>https\<close> URLs before the parser
  looks at the port.
\<close>

theorem default_port_counterexample:
  "linkKey ''http://example.com/a'' = Some ''https://example.com/a''
   \<and> linkKey ''http://example.com:80/a'' = Some ''https://example.com:80/a''
   \<and> linkKey ''http://example.com:80/a'' \<noteq> linkKey ''http://example.com/a''"
proof -
  have "linkKey (spell ''http'' ''example.com'' None ''/a'' None None) = Some ''https://example.com/a''"
    unfolding linkKey_spell [OF _ modelled_example(1,5,2,6,6), of "''http''", simplified]
    by (simp add: modelled_example toLowerCase_def toLower_def httpsPort_def portText_def
        pathWithoutTrailingSlash_def searchText_def hashText_def)
  moreover have "linkKey (spell ''http'' ''example.com'' (Some ''80'') ''/a'' None None) = Some ''https://example.com:80/a''"
    unfolding linkKey_spell [OF _ modelled_example(1,4,2,6,6), of "''http''", simplified]
    by (simp add: modelled_example toLowerCase_def toLower_def httpsPort_def portText_def
        pathWithoutTrailingSlash_def searchText_def hashText_def)
  ultimately show ?thesis by (simp add: spell_def portText_def tailText_def)
qed

text \<open>
  \<open>new URL(href, base)\<close> for a base URL of the model, on the references the model
  covers: an absolute \<open>http\<close> or \<open>https\<close> URL (scheme, colon, two slashes); a
  scheme-relative reference (two leading slashes), which takes the scheme of the base; a
  path-absolute reference (one leading slash); a query-only and a fragment-only reference;
  and a path-relative reference, resolved against the directory of the base path. A
  reference with another scheme is outside the model (\<open>None\<close>).
\<close>

definition isSchemeChar :: "char \<Rightarrow> bool" where
  "isSchemeChar c = (isLower c \<or> isUpper c \<or> isDigit c \<or> c \<in> set ''+-.'')"

definition schemeOf :: "string \<Rightarrow> string option" where
  "schemeOf s =
     (case s of
        [] \<Rightarrow> None
      | c # cs \<Rightarrow>
          if (isLower c \<or> isUpper c)
             \<and> (case dropWhile isSchemeChar s of [] \<Rightarrow> False | d # ds \<Rightarrow> d = CHR '':'')
          then Some (toLowerCase (takeWhile isSchemeChar s))
          else None)"

definition directoryOf :: "string \<Rightarrow> string" where
  "directoryOf p = rev (dropWhile (\<lambda>c. c \<noteq> CHR ''/'') (rev p))"

definition withTail :: "URL \<Rightarrow> string \<Rightarrow> URL option" where
  "withTail base t =
     (case parseTail t of
        None \<Rightarrow> None
      | Some (path, q, f) \<Rightarrow>
          Some (base\<lparr> url_pathname := path, url_query := q, url_fragment := f \<rparr>))"

definition URL_resolve :: "string \<Rightarrow> string \<Rightarrow> URL option" where
  "URL_resolve href0 base0 =
     (case URL_new base0 of
        None \<Rightarrow> None
      | Some base \<Rightarrow>
          (case schemeOf href0 of
             Some scheme \<Rightarrow>
               if (scheme = ''http'' \<or> scheme = ''https'')
                  \<and> prefix ''//'' (tl (dropWhile isSchemeChar href0))
               then URL_new href0 else None
           | None \<Rightarrow>
               (case href0 of
                  [] \<Rightarrow> Some base
                | c # cs \<Rightarrow>
                    if isSlash c \<and> cs \<noteq> [] \<and> isSlash (hd cs)
                    then parseSpecial (url_scheme base) href0
                    else if c = CHR ''/'' then withTail base href0
                    else if c = CHR ''?''
                    then withTail base (url_pathname base @ href0)
                    else if c = CHR ''#''
                    then withTail base
                           (url_pathname base
                            @ (case url_query base of None \<Rightarrow> [] | Some q \<Rightarrow> ''?'' @ q)
                            @ href0)
                    else withTail base (directoryOf (url_pathname base) @ href0))))"

section \<open>Link discovery (\<open>analyzers/focused/links-analyzer.ts\<close>)\<close>

text \<open>
  The state of the loop over the anchors of the main page (lines 36-67): the two
  counters and \<open>internalUrlsSet\<close>, a set that keeps insertion order.
\<close>

record link_state =
  ls_internal :: nat
  ls_external :: nat
  ls_internalUrlsSet :: "string list"

text \<open>\<open>Set.prototype.add\<close> on a set kept as the list of its elements in insertion order.\<close>

definition set_add :: "'a list \<Rightarrow> 'a \<Rightarrow> 'a list" where
  "set_add xs x = (if x \<in> set xs then xs else xs @ [x])"

text \<open>
  The body of the loop for one extracted and trimmed \<open>href\<close>, on the page \<open>url\<close> whose
  host name is \<open>domain\<close>. An empty reference and one that starts with \<open>#\<close>,
  \<open>javascript:\<close>, \<open>mailto:\<close> or \<open>tel:\<close> is skipped. A reference that starts with
  \<open>http\<close> is parsed on its own and counted by its host name; any other reference is
  resolved against the page URL and counted as internal. A reference that does not
  parse is skipped (the \<open>catch\<close>). The parser is the model of the \<open>URL\<close> class
  given above: on a reference outside the URLs it covers (a path with a dot segment, a
  scheme other than \<open>http\<close> and \<open>https\<close>) the function takes the \<open>catch\<close> branch
  where the builtin may parse; the theorem below is about a reference the model covers.
\<close>

definition classifyHref :: "string \<Rightarrow> string \<Rightarrow> link_state \<Rightarrow> string \<Rightarrow> link_state" where
  "classifyHref domain url st href0 =
     (if href0 = [] \<or> prefix ''#'' href0 \<or> prefix ''javascript:'' href0
         \<or> prefix ''mailto:'' href0 \<or> prefix ''tel:'' href0
      then st
      else if prefix ''http'' href0
      then (case URL_new href0 of
              None \<Rightarrow> st
            | Some l \<Rightarrow>
                if url_hostname l = domain
                then st\<lparr> ls_internal := ls_internal st + 1,
                         ls_internalUrlsSet := set_add (ls_internalUrlsSet st) href0 \<rparr>
                else st\<lparr> ls_external := ls_external st + 1 \<rparr>)
      else (case URL_resolve href0 url of
              None \<Rightarrow> st
            | Some a \<Rightarrow>
                st\<lparr> ls_internal := ls_internal st + 1,
                     ls_internalUrlsSet := set_add (ls_internalUrlsSet st) (href a) \<rparr>))"

text \<open>The loop over the references of the page, from the empty state.\<close>

definition discoverLinks :: "string \<Rightarrow> string list \<Rightarrow> link_state option" where
  "discoverLinks url hrefs =
     (case URL_new url of
        None \<Rightarrow> None
      | Some u \<Rightarrow>
          Some (fold (\<lambda>h st. classifyHref (url_hostname u) url st h) hrefs
                  \<lparr> ls_internal = 0, ls_external = 0, ls_internalUrlsSet = [] \<rparr>))"


lemma modelled_evil: "modelledHost ''evil.example''" "modelledPath ''/x''" "modelledPath []"
  by (simp_all add: modelledHost_def isHostChar_def isLower_def isUpper_def isDigit_def
      lastLabel_def toLowerCase_def toLower_def modelledPath_def isPlainChar_def)

lemma base_example:
  "URL_new ''https://example.com/''
     = Some \<lparr> url_scheme = ''https'', url_hostname = ''example.com'', url_port = [],
              url_pathname = ''/'', url_query = None, url_fragment = None \<rparr>"
  using URL_new_spell [OF _ modelled_example(1,5) modelledPath_root modelled_example(6,6),
      of "''https''"]
  by (simp add: spell_def portText_def tailText_def portOf_def toLowerCase_def toLower_def)

lemma resolve_evil:
  "URL_resolve ''//evil.example/x'' ''https://example.com/''
     = Some \<lparr> url_scheme = ''https'', url_hostname = ''evil.example'', url_port = [],
              url_pathname = ''/x'', url_query = None, url_fragment = None \<rparr>"
proof -
  have sl: "list_all isSlash ''//''" by (simp add: isSlash_def)
  have "parseSpecial ''https'' (''//'' @ ''evil.example'' @ portText None @ ''/x'' @ tailText None None)
     = Some \<lparr> url_scheme = ''https'', url_hostname = toLowerCase ''evil.example'',
              url_port = portOf ''https'' None,
              url_pathname = (if ''/x'' = [] then ''/'' else ''/x''), url_query = None,
              url_fragment = None \<rparr>"
    by (rule parseSpecial_spell [OF modelled_evil(1) modelled_example(5) modelled_evil(2)
          modelled_example(6,6) sl])
  then have p: "parseSpecial ''https'' ''//evil.example/x''
     = Some \<lparr> url_scheme = ''https'', url_hostname = ''evil.example'', url_port = [],
              url_pathname = ''/x'', url_query = None, url_fragment = None \<rparr>"
    by (simp add: portText_def tailText_def portOf_def toLowerCase_def toLower_def)
  have s: "schemeOf ''//evil.example/x'' = None"
    by (simp add: schemeOf_def isLower_def isUpper_def)
  show ?thesis
    unfolding URL_resolve_def base_example s
    by (simp add: isSlash_def p)
qed

text \<open>
  Claim C6 at the reference \<open>//evil.example/x\<close> on the page
  \<open>https://example.com/\<close>: the reference does not start with \<open>http\<close>, so the
  loop resolves it against the page URL and counts it as internal, and
  \<open>https://evil.example/x\<close> enters the internal URL set, although the host of the
  resolved reference is \<open>evil.example\<close> and the page's host is \<open>example.com\<close>.
\<close>

theorem scheme_relative_href_internal:
  "discoverLinks ''https://example.com/'' [''//evil.example/x'']
     = Some \<lparr> ls_internal = 1, ls_external = 0,
              ls_internalUrlsSet = [''https://evil.example/x''] \<rparr>
   \<and> map_option url_hostname (URL_resolve ''//evil.example/x'' ''https://example.com/'')
       = Some ''evil.example''
   \<and> map_option url_hostname (URL_new ''https://example.com/'') = Some ''example.com''"
  unfolding discoverLinks_def base_example
  by (simp add: classifyHref_def resolve_evil set_add_def href_def protocol_def host_def)


text \<open>
  The second pass of the analyzer (lines 69-90): every URL of the set is normalized, the
  main page is left out, and the first URL of each deduplication key is kept in a map
  that keeps insertion order. \<open>normalizeUrl\<close> is called outside any \<open>try\<close>: if it
  throws, the analyzer throws (\<open>None\<close>).
\<close>

definition dedupStep ::
  "string \<Rightarrow> (string \<times> string) list option \<Rightarrow> string \<Rightarrow> (string \<times> string) list option" where
  "dedupStep normalizedMainUrl acc internalUrl =
     (case acc of
        None \<Rightarrow> None
      | Some deduplicatedUrlsMap \<Rightarrow>
          (case normalizeUrl internalUrl of
             None \<Rightarrow> None
           | Some normalizedInternalUrl \<Rightarrow>
               if normalizedInternalUrl = normalizedMainUrl then Some deduplicatedUrlsMap
               else (case deduplicationKey normalizedInternalUrl of
                       None \<Rightarrow> None
                     | Some k \<Rightarrow>
                         if map_of deduplicatedUrlsMap k = None
                         then Some (deduplicatedUrlsMap @ [(k, normalizedInternalUrl)])
                         else Some deduplicatedUrlsMap)))"

text \<open>
  \<open>finalUrls\<close>: the values of the map, cut to \<open>CONFIG.MAX_INTERNAL_URLS\<close> (here the
  parameter \<open>maxUrls\<close>).
\<close>

definition finalUrls :: "nat \<Rightarrow> string \<Rightarrow> string list \<Rightarrow> string list option" where
  "finalUrls maxUrls url internalUrlsSet =
     (case normalizeUrl url of
        None \<Rightarrow> None
      | Some normalizedMainUrl \<Rightarrow>
          map_option (\<lambda>m. take maxUrls (map snd m))
            (fold (\<lambda>u acc. dedupStep normalizedMainUrl acc u) internalUrlsSet (Some [])))"

section \<open>Frontier builder (\<open>analyze-unified.ts\<close>, lines 156-199)\<close>

text \<open>
  The sitemap entries the route takes: those of an existing sitemap of the main page
  result, without the entries equal to the requested URL or to the result's URL.
\<close>

definition sitemapUrlsOf :: "string \<Rightarrow> CompleteAnalysisResult \<Rightarrow> string list" where
  "sitemapUrlsOf url mainPageResult =
     (case res_sitemap mainPageResult of
        None \<Rightarrow> []
      | Some sitemap \<Rightarrow>
          if sm_exists sitemap
          then filter (\<lambda>sitemapUrl. sitemapUrl \<noteq> url \<and> sitemapUrl \<noteq> res_url mainPageResult)
                 (map su_url (sm_urls sitemap))
          else [])"

text \<open>Adding the elements of a list to a set, one after the other.\<close>

definition addAll :: "'a list \<Rightarrow> 'a list \<Rightarrow> 'a list" where
  "addAll s xs = fold (\<lambda>x acc. set_add acc x) xs s"

text \<open>
  \<open>urlsToAnalyze\<close>: the sitemap URLs are added to \<open>urlsToAnalyzeSet\<close> first, then the
  discovered internal URLs, and the set, as an array, is cut to
  \<open>CONFIG.MAX_INTERNAL_URLS\<close>. (The two counters of the source only feed the log.)
\<close>

definition buildFrontier :: "nat \<Rightarrow> string \<Rightarrow> CompleteAnalysisResult \<Rightarrow> string list" where
  "buildFrontier maxUrls url mainPageResult =
     (let afterSitemap = addAll [] (sitemapUrlsOf url mainPageResult);
          urlsToAnalyzeSet = addAll afterSitemap (res_internalUrls mainPageResult)
      in take maxUrls urlsToAnalyzeSet)"

text \<open>
  A main page result whose sitemap lists \<open>https://example.com/a/\<close> and whose discovered
  links hold \<open>https://example.com/a\<close>.
\<close>

definition sitemapOf :: "string list \<Rightarrow> SitemapAnalysis" where
  "sitemapOf us =
     \<lparr> sm_exists = True, sm_accessible = True, sm_isValidXml = True,
       sm_totalUrls = length us,
       sm_urls = map (\<lambda>u. \<lparr> su_url = u, su_lastModified = None, su_isLowValue = False \<rparr>) us,
       sm_childSitemaps = [], sm_issues = [], sm_lastModified = None,
       sm_isCompressed = False, sm_lowValueUrls = 0, sm_truncated = None \<rparr>"

definition mainWithSlashTwin :: CompleteAnalysisResult where
  "mainWithSlashTwin =
     (pageResult ''https://example.com'' Success)
       \<lparr> res_sitemap := Some (sitemapOf [''https://example.com/a/'']),
         res_internalUrls := [''https://example.com/a''] \<rparr>"

lemma set_add_distinct: "distinct s \<Longrightarrow> distinct (set_add s x)"
  by (simp add: set_add_def)

lemma addAll_distinct: "distinct s \<Longrightarrow> distinct (addAll s xs)"
  unfolding addAll_def by (induction xs arbitrary: s) (simp_all add: set_add_distinct)

lemma addAll_Cons: "addAll s (x # xs) = addAll (set_add s x) xs"
  by (simp add: addAll_def)

lemma addAll_Nil: "addAll s [] = s"
  by (simp add: addAll_def)

lemma addAll_snoc: "addAll s (xs @ [x]) = set_add (addAll s xs) x"
  by (simp add: addAll_def)

lemma addAll_set: "set (addAll s xs) = set s \<union> set xs"
  unfolding addAll_def by (induction xs arbitrary: s) (auto simp: set_add_def)

lemma addAll_split: "addAll s xs = s @ filter (\<lambda>x. x \<notin> set s) (addAll [] xs)"
proof (induction xs rule: rev_induct)
  case Nil
  then show ?case by (simp add: addAll_Nil)
next
  case (snoc x xs)
  let ?F = "filter (\<lambda>x. x \<notin> set s) (addAll [] xs)"
  have ih: "addAll s xs = s @ ?F" by (rule snoc)
  show ?case
  proof (cases "x \<in> set xs")
    case True
    then have "set_add (addAll s xs) x = addAll s xs" "set_add (addAll [] xs) x = addAll [] xs"
      by (simp_all add: set_add_def addAll_set)
    then show ?thesis using ih by (simp add: addAll_snoc)
  next
    case False
    then have r: "set_add (addAll [] xs) x = addAll [] xs @ [x]"
      by (simp add: set_add_def addAll_set)
    show ?thesis
    proof (cases "x \<in> set s")
      case True
      then have "set_add (addAll s xs) x = addAll s xs" by (simp add: set_add_def addAll_set)
      then show ?thesis using ih True by (simp add: addAll_snoc r)
    next
      case False
      then have "set_add (addAll s xs) x = addAll s xs @ [x]"
        using \<open>x \<notin> set xs\<close> by (simp add: set_add_def addAll_set)
      then show ?thesis using ih False by (simp add: addAll_snoc r)
    qed
  qed
qed

text \<open>
  Claim C3, as the code has it. The frontier has no two equal strings (its entries are
  deduplicated by string equality, not by normalized key), has at most \<open>maxUrls\<close>
  entries (\<open>CONFIG.MAX_INTERNAL_URLS\<close>, the cap \<open>finalUrls\<close> of link discovery
  uses), and is the cut of: the sitemap URLs in first-occurrence order, followed by the
  discovered URLs that are no sitemap URL, in first-occurrence order. So the sitemap
  entries come first and use the cap first.
\<close>

theorem frontier_exact_dedup:
  "distinct (buildFrontier maxUrls url mainPageResult)
   \<and> length (buildFrontier maxUrls url mainPageResult) \<le> maxUrls
   \<and> buildFrontier maxUrls url mainPageResult
       = take maxUrls
           (addAll [] (sitemapUrlsOf url mainPageResult)
            @ filter (\<lambda>u. u \<notin> set (sitemapUrlsOf url mainPageResult))
                (addAll [] (res_internalUrls mainPageResult)))
   \<and> distinct (addAll [] (sitemapUrlsOf url mainPageResult))
   \<and> set (addAll [] (sitemapUrlsOf url mainPageResult)) = set (sitemapUrlsOf url mainPageResult)
   \<and> set (addAll [] (res_internalUrls mainPageResult)) = set (res_internalUrls mainPageResult)"
proof -
  let ?sm = "sitemapUrlsOf url mainPageResult"
  let ?li = "res_internalUrls mainPageResult"
  let ?all = "addAll (addAll [] ?sm) ?li"
  have f: "buildFrontier maxUrls url mainPageResult = take maxUrls ?all"
    by (simp add: buildFrontier_def Let_def)
  have "distinct ?all" by (intro addAll_distinct) simp
  then have d: "distinct (take maxUrls ?all)" by (rule distinct_take)
  have l: "length (take maxUrls ?all) \<le> maxUrls" by simp
  have e: "?all = addAll [] ?sm @ filter (\<lambda>u. u \<notin> set ?sm) (addAll [] ?li)"
    using addAll_split [of "addAll [] ?sm" ?li] by (simp add: addAll_set)
  have d2: "distinct (addAll [] ?sm)" by (intro addAll_distinct) simp
  show ?thesis
    unfolding f using d l d2 by (simp only: e addAll_set) simp
qed

text \<open>
  Claim C3 as stated fails: \<open>https://example.com/a/\<close> from the sitemap and
  \<open>https://example.com/a\<close> from link discovery have the same normalized key, and
  both are entries of the frontier.
\<close>

theorem frontier_slash_twin_counterexample:
  "buildFrontier 99 ''https://example.com'' mainWithSlashTwin
     = [''https://example.com/a/'', ''https://example.com/a'']
   \<and> linkKey ''https://example.com/a/'' = Some ''https://example.com/a''
   \<and> linkKey ''https://example.com/a'' = Some ''https://example.com/a''"
proof -
  have k: "linkKey (spell ''https'' ''example.com'' None ''/a'' None None) = Some ''https://example.com/a''"
    unfolding linkKey_spell [OF _ modelled_example(1,5,2,6,6), of "''https''", simplified]
    by (simp add: modelled_example toLowerCase_def toLower_def httpsPort_def portText_def
        pathWithoutTrailingSlash_def searchText_def hashText_def)
  have m: "modelledPath ''/a/''" by (simp add: modelledPath_def isPlainChar_def isLower_def)
  have k2: "linkKey (spell ''https'' ''example.com'' None ''/a/'' None None) = Some ''https://example.com/a''"
    unfolding linkKey_spell [OF _ modelled_example(1,5) m modelled_example(6,6), of "''https''", simplified]
    by (simp add: modelled_example toLowerCase_def toLower_def httpsPort_def portText_def
        pathWithoutTrailingSlash_def searchText_def hashText_def)
  have f: "buildFrontier 99 ''https://example.com'' mainWithSlashTwin
     = [''https://example.com/a/'', ''https://example.com/a'']"
    by (simp add: buildFrontier_def mainWithSlashTwin_def sitemapUrlsOf_def sitemapOf_def
        pageResult_def addAll_def set_add_def)
  show ?thesis using k k2 f by (simp add: spell_def portText_def tailText_def)
qed

section \<open>Crawl entrypoint and report aggregator (\<open>analyze-unified.ts\<close>)\<close>

text \<open>\<open>AnalysisSummary\<close> and the unified response of the route.\<close>

record AnalysisSummary =
  totalPages :: nat
  successfulPages :: nat
  failedPages :: nat
  avgSeoScore :: int
  criticalIssues :: nat
  warningIssues :: nat
  successIssues :: nat
  cachedResults :: nat

record UnifiedAnalysisResponse =
  ua_mainPage :: CompleteAnalysisResult
  ua_summary :: AnalysisSummary
  ua_pages :: "CompleteAnalysisResult list"
  ua_isMultiPage :: bool

text \<open>
  What the route answers after the URL has passed validation: an error response with its
  HTTP status, built from the failed main page result, or the report with status 200.
\<close>

datatype route_response =
  ErrorResponse nat CompleteAnalysisResult
  | ReportResponse UnifiedAnalysisResponse

text \<open>
  Step 1: the main page under \<open>handleAsync\<close> with \<open>retries: 2\<close>; a rejection after the
  retries becomes a failed result of type \<open>analysis\<close> (the \<open>.catch\<close>).
\<close>

definition settleMain :: "page_analyzer \<Rightarrow> string \<Rightarrow> CompleteAnalysisResult" where
  "settleMain analyzePage url =
     (case handleAsync (analyzePage url True) 2 of
        Inr v \<Rightarrow> v
      | Inl e \<Rightarrow>
          \<lparr> res_url = url, res_status = Failed,
            res_errorType = Some SEO_analysis, res_errorCode = None,
            res_seoScore = 0, res_issues = [], res_sitemap = None, res_internalUrls = [] \<rparr>)"

text \<open>The HTTP status of the error response, by the error type of the main page.\<close>

definition statusCodeOf :: "SEOErrorType option \<Rightarrow> nat" where
  "statusCodeOf errorType =
     (if errorType = Some SEO_timeout then 408
      else if errorType = Some SEO_network then 502
      else if errorType = Some SEO_url_format then 400
      else if errorType = Some SEO_validation then 400
      else 500)"

text \<open>
  Step 3: the statistics over all results. The average is taken over the successful
  pages, and the issues are counted over the successful pages.
\<close>

definition summarize :: "CompleteAnalysisResult list \<Rightarrow> AnalysisSummary" where
  "summarize allResults =
     (let successfulResults = filter (\<lambda>r. res_status r = Success) allResults;
          failedCount = length allResults - length successfulResults;
          avg = (if length successfulResults > 0
                 then Math_round (real_of_int (sum_list (map res_seoScore successfulResults))
                                   / real (length successfulResults))
                 else 0);
          allIssues = concat (map res_issues successfulResults)
      in \<lparr> totalPages = length allResults,
           successfulPages = length successfulResults,
           failedPages = failedCount,
           avgSeoScore = avg,
           criticalIssues = length (filter (\<lambda>i. itype i = IssueError) allIssues),
           warningIssues = length (filter (\<lambda>i. itype i = IssueWarning) allIssues),
           successIssues = length (filter (\<lambda>i. itype i = IssueSuccess) allIssues),
           cachedResults = 0 \<rparr>)"

text \<open>
  The route from step 1 on, for a URL that has passed the validation steps: a failed
  main page ends the request with an error response; otherwise the frontier is built,
  analysed in batches, and the report is returned.
\<close>

definition crawl :: "nat \<Rightarrow> page_analyzer \<Rightarrow> string \<Rightarrow> route_response" where
  "crawl maxUrls analyzePage url =
     (let mainPageResult = settleMain analyzePage url in
      if res_status mainPageResult = Failed
      then ErrorResponse (statusCodeOf (res_errorType mainPageResult)) mainPageResult
      else
        (let urlsToAnalyze = buildFrontier maxUrls url mainPageResult;
             allResults = analyzeInternal analyzePage urlsToAnalyze [mainPageResult]
         in ReportResponse
              \<lparr> ua_mainPage = mainPageResult,
                ua_summary = summarize allResults,
                ua_pages = allResults,
                ua_isMultiPage = (length allResults > 1) \<rparr>))"

text \<open>
  \<open>analyzePage\<close> of \<open>refactored-analyzer.ts\<close> over a web: the orchestrator's
  \<open>analyzeUrl\<close> on what the fetch of the URL gives. It resolves at every attempt.
\<close>

definition analyzePageOver ::
  "nat \<Rightarrow> (string \<times> analyzer) list \<Rightarrow> (string \<Rightarrow> fetch_outcome) \<Rightarrow> page_analyzer" where
  "analyzePageOver pageSizeLimit registry fetch u isMainPage k =
     Resolves (analyzeUrl pageSizeLimit registry u isMainPage 0 (fetch u))"

text \<open>A site that answers every request with status 404.\<close>

definition notFoundWeb :: "string \<Rightarrow> fetch_outcome" where
  "notFoundWeb u = Response False 404 []"

text \<open>
  A page analyzer for which the main page \<open>https://example.com\<close> succeeds with two
  discovered links, and every other page times out at every attempt.
\<close>

definition onlyMainAnalyzer :: page_analyzer where
  "onlyMainAnalyzer u isMainPage k =
     (if u = ''https://example.com''
      then Resolves ((pageResult u Success)
                       \<lparr> res_internalUrls := [''https://example.com/a'', ''https://example.com/b''] \<rparr>)
      else Rejects timeoutError)"

lemma crawl_failed:
  "res_status (settleMain analyzePage url) = Failed \<Longrightarrow>
   crawl maxUrls analyzePage url
     = ErrorResponse (statusCodeOf (res_errorType (settleMain analyzePage url)))
         (settleMain analyzePage url)"
  by (simp add: crawl_def Let_def)

lemma crawl_success:
  "res_status (settleMain analyzePage url) = Success \<Longrightarrow>
   crawl maxUrls analyzePage url
     = ReportResponse
         \<lparr> ua_mainPage = settleMain analyzePage url,
           ua_summary = summarize (settleMain analyzePage url
              # map (settleInternal analyzePage)
                  (buildFrontier maxUrls url (settleMain analyzePage url))),
           ua_pages = settleMain analyzePage url
              # map (settleInternal analyzePage)
                  (buildFrontier maxUrls url (settleMain analyzePage url)),
           ua_isMultiPage = (buildFrontier maxUrls url (settleMain analyzePage url) \<noteq> []) \<rparr>"
  by (simp add: crawl_def Let_def analyzeInternal_append)

lemma summarize_counts:
  "totalPages (summarize rs) = length rs
   \<and> successfulPages (summarize rs) + failedPages (summarize rs) = length rs
   \<and> successfulPages (summarize rs) = length (filter (\<lambda>r. res_status r = Success) rs)"
  by (simp add: summarize_def Let_def)

text \<open>
  Claim C1, as the code has it. For a URL that has passed validation, the route returns
  the report exactly when the main page analysis succeeds: then the report lists the main
  page and one result per frontier URL, whatever the status of those, and the summary
  counts them all. When the main page analysis fails, after its retries, the route
  returns an error response built from the failed result, with the HTTP status of its
  error type, and no report.
\<close>

theorem crawl_report_iff_main_page:
  "(res_status (settleMain analyzePage url) = Success \<longrightarrow>
      (\<exists>report. crawl maxUrls analyzePage url = ReportResponse report
         \<and> ua_mainPage report = settleMain analyzePage url
         \<and> ua_pages report
             = settleMain analyzePage url
               # map (settleInternal analyzePage)
                   (buildFrontier maxUrls url (settleMain analyzePage url))
         \<and> totalPages (ua_summary report)
             = 1 + length (buildFrontier maxUrls url (settleMain analyzePage url))
         \<and> successfulPages (ua_summary report) + failedPages (ua_summary report)
             = totalPages (ua_summary report)))
   \<and> (res_status (settleMain analyzePage url) = Failed \<longrightarrow>
        crawl maxUrls analyzePage url
          = ErrorResponse (statusCodeOf (res_errorType (settleMain analyzePage url)))
              (settleMain analyzePage url))"
proof (intro conjI impI)
  assume s: "res_status (settleMain analyzePage url) = Success"
  let ?pages = "settleMain analyzePage url
      # map (settleInternal analyzePage) (buildFrontier maxUrls url (settleMain analyzePage url))"
  let ?report = "\<lparr> ua_mainPage = settleMain analyzePage url,
           ua_summary = summarize ?pages, ua_pages = ?pages,
           ua_isMultiPage = (buildFrontier maxUrls url (settleMain analyzePage url) \<noteq> []) \<rparr>"
  have "crawl maxUrls analyzePage url = ReportResponse ?report"
    by (rule crawl_success [OF s])
  moreover have "totalPages (summarize ?pages)
      = 1 + length (buildFrontier maxUrls url (settleMain analyzePage url))"
    using summarize_counts [of ?pages] by simp
  moreover have "successfulPages (summarize ?pages) + failedPages (summarize ?pages)
      = totalPages (summarize ?pages)"
    using summarize_counts [of ?pages] by simp
  ultimately show "\<exists>report. crawl maxUrls analyzePage url = ReportResponse report
         \<and> ua_mainPage report = settleMain analyzePage url
         \<and> ua_pages report = ?pages
         \<and> totalPages (ua_summary report)
             = 1 + length (buildFrontier maxUrls url (settleMain analyzePage url))
         \<and> successfulPages (ua_summary report) + failedPages (ua_summary report)
             = totalPages (ua_summary report)"
    by (intro exI [of _ ?report]) simp
next
  assume "res_status (settleMain analyzePage url) = Failed"
  then show "crawl maxUrls analyzePage url
          = ErrorResponse (statusCodeOf (res_errorType (settleMain analyzePage url)))
              (settleMain analyzePage url)"
    by (rule crawl_failed)
qed

text \<open>
  Claim C1 as stated fails: on a site that answers 404, the valid root URL
  \<open>https://example.com\<close> gives a failed main page, and the route answers with the
  error response of status 502 in place of a report.
\<close>

theorem main_page_failure_counterexample:
  "crawl 99 (analyzePageOver 5000000 [] notFoundWeb) ''https://example.com''
     = ErrorResponse 502 (createErrorResult ''https://example.com'' HTTP_404)"
  by (simp add: crawl_def settleMain_def handleAsync_def analyzePageOver_def notFoundWeb_def
      analyzeUrl_def createErrorResult_def httpErrorCode_def statusCodeOf_def Let_def
      numeral_2_eq_2)

theorem crawl_report_iff_main_page_witness:
  "res_status (settleMain onlyMainAnalyzer ''https://example.com'') = Success
   \<and> res_status (settleMain (analyzePageOver 5000000 [] notFoundWeb) ''https://example.com'')
       = Failed
   \<and> (\<exists>report. crawl 99 onlyMainAnalyzer ''https://example.com'' = ReportResponse report
         \<and> map res_status (ua_pages report) = [Success, Failed, Failed]
         \<and> totalPages (ua_summary report) = 3)
   \<and> crawl 99 (analyzePageOver 5000000 [] notFoundWeb) ''https://example.com''
       = ErrorResponse 502 (createErrorResult ''https://example.com'' HTTP_404)"
proof -
  let ?u = "''https://example.com''"
  let ?w = "analyzePageOver 5000000 [] notFoundWeb"
  have m: "settleMain onlyMainAnalyzer ?u
      = (pageResult ?u Success)
          \<lparr> res_internalUrls := [''https://example.com/a'', ''https://example.com/b''] \<rparr>"
    by (simp add: settleMain_def handleAsync_def onlyMainAnalyzer_def numeral_2_eq_2)
  have s: "res_status (settleMain onlyMainAnalyzer ?u) = Success"
    unfolding m by (simp add: pageResult_def)
  have fr: "buildFrontier 99 ?u (settleMain onlyMainAnalyzer ?u)
      = [''https://example.com/a'', ''https://example.com/b'']"
    unfolding m
    by (simp add: buildFrontier_def sitemapUrlsOf_def pageResult_def addAll_def set_add_def)
  have fa: "res_status (settleInternal onlyMainAnalyzer ''https://example.com/a'') = Failed"
    "res_status (settleInternal onlyMainAnalyzer ''https://example.com/b'') = Failed"
    by (simp_all add: settleInternal_def handleAsync_def onlyMainAnalyzer_def timeoutError_def
        failedInternal_def)
  have f: "settleMain ?w ?u = createErrorResult ?u HTTP_404"
    by (simp add: settleMain_def handleAsync_def analyzePageOver_def notFoundWeb_def
        analyzeUrl_def httpErrorCode_def numeral_2_eq_2)
  have fs: "res_status (settleMain ?w ?u) = Failed"
    unfolding f by (simp add: createErrorResult_def)
  note th1 = crawl_report_iff_main_page [of onlyMainAnalyzer ?u 99]
  note th2 = crawl_report_iff_main_page [of ?w ?u 99]
  from th1 s obtain report where r: "crawl 99 onlyMainAnalyzer ?u = ReportResponse report"
    "ua_pages report = settleMain onlyMainAnalyzer ?u
       # map (settleInternal onlyMainAnalyzer) (buildFrontier 99 ?u (settleMain onlyMainAnalyzer ?u))"
    "totalPages (ua_summary report)
       = 1 + length (buildFrontier 99 ?u (settleMain onlyMainAnalyzer ?u))"
    by blast
  have a: "\<exists>report. crawl 99 onlyMainAnalyzer ?u = ReportResponse report
         \<and> map res_status (ua_pages report) = [Success, Failed, Failed]
         \<and> totalPages (ua_summary report) = 3"
    using r s fa by (simp add: fr)
  have b: "crawl 99 ?w ?u = ErrorResponse 502 (createErrorResult ?u HTTP_404)"
    using th2 fs by (simp add: f createErrorResult_def statusCodeOf_def)
  show ?thesis using s fs a b by simp
qed

section \<open>Sitemap discovery (\<open>analyzers/focused/utils/robots-sitemap-utils.ts\<close>)\<close>

subsection \<open>The regular expressions of the file, as scanners\<close>

text \<open>
  A case-insensitive literal at the start of a string (the literal is given in lower
  case).
\<close>

definition ciPrefix :: "string \<Rightarrow> string \<Rightarrow> bool" where
  "ciPrefix lit s = (toLowerCase (take (length lit) s) = lit)"

text \<open>
  One match of \<open>/<loc[^>]*>([^<]+)<\/loc>/i\<close> at the start of a string: the captured
  group and the length of the match. The two character classes are followed by the one
  character they exclude, so the match is the only candidate at this position.
\<close>

definition matchTagAt :: "string \<Rightarrow> string \<Rightarrow> (string \<times> nat) option" where
  "matchTagAt tag s =
     (if \<not> ciPrefix (''<'' @ tag) s then None
      else
        (let afterName = drop (Suc (length tag)) s;
             attrs = takeWhile (\<lambda>c. c \<noteq> CHR ''>'') afterName;
             r1 = dropWhile (\<lambda>c. c \<noteq> CHR ''>'') afterName
         in case r1 of
              [] \<Rightarrow> None
            | gt # r2 \<Rightarrow>
                (let inner = takeWhile (\<lambda>c. c \<noteq> CHR ''<'') r2;
                     r3 = dropWhile (\<lambda>c. c \<noteq> CHR ''<'') r2
                 in if inner \<noteq> [] \<and> ciPrefix (''</'' @ tag @ ''>'') r3
                    then Some (inner, Suc (length tag) + length attrs + 1 + length inner
                                       + (length tag + 3))
                    else None)))"

text \<open>
  All matches of the expression with the \<open>g\<close> flag, left to right, the search resuming
  after each match; \<open>skip\<close> counts the characters of the current match still to pass.
  The result holds the captured groups.
\<close>

fun matchAllTag :: "string \<Rightarrow> nat \<Rightarrow> string \<Rightarrow> string list" where
  "matchAllTag tag skip [] = []"
| "matchAllTag tag (Suc skip) (c # cs) = matchAllTag tag skip cs"
| "matchAllTag tag 0 (c # cs) =
     (case matchTagAt tag (c # cs) of
        Some (inner, len) \<Rightarrow> inner # matchAllTag tag (len - 1) cs
      | None \<Rightarrow> matchAllTag tag 0 cs)"

text \<open>The first match of the expression (no \<open>g\<close> flag): its captured group.\<close>

fun matchFirstTag :: "string \<Rightarrow> string \<Rightarrow> string option" where
  "matchFirstTag tag [] = None"
| "matchFirstTag tag (c # cs) =
     (case matchTagAt tag (c # cs) of
        Some (inner, len) \<Rightarrow> Some inner
      | None \<Rightarrow> matchFirstTag tag cs)"

text \<open>
  One match of the separator \<open>/<url[^>]*>/i\<close> at the start of a string: its length.
\<close>

definition matchUrlOpenAt :: "string \<Rightarrow> nat option" where
  "matchUrlOpenAt s =
     (if \<not> ciPrefix ''<url'' s then None
      else
        (let afterName = drop 4 s;
             attrs = takeWhile (\<lambda>c. c \<noteq> CHR ''>'') afterName
         in if dropWhile (\<lambda>c. c \<noteq> CHR ''>'') afterName = [] then None
            else Some (4 + length attrs + 1)))"

text \<open>
  \<open>content.split(/<url[^>]*>/i)\<close>: the pieces between the separators, in order;
  \<open>piece\<close> is the piece being read, reversed.
\<close>

fun splitUrlOpen :: "nat \<Rightarrow> string \<Rightarrow> string \<Rightarrow> string list" where
  "splitUrlOpen skip piece [] = [rev piece]"
| "splitUrlOpen (Suc skip) piece (c # cs) = splitUrlOpen skip piece cs"
| "splitUrlOpen 0 piece (c # cs) =
     (case matchUrlOpenAt (c # cs) of
        Some len \<Rightarrow> rev piece # splitUrlOpen (len - 1) [] cs
      | None \<Rightarrow> splitUrlOpen 0 (c # piece) cs)"

text \<open>\<open>block.indexOf('</url>')\<close> and \<open>substring(0, endIndex)\<close>: the part before the
  first occurrence, if there is one.\<close>

fun beforeFirst :: "string \<Rightarrow> string \<Rightarrow> string option" where
  "beforeFirst lit [] = (if lit = [] then Some [] else None)"
| "beforeFirst lit (c # cs) =
     (if prefix lit (c # cs) then Some []
      else map_option ((#) c) (beforeFirst lit cs))"

text \<open>\<open>content.split('\n')\<close>.\<close>

fun splitLines :: "string \<Rightarrow> string list" where
  "splitLines [] = [[]]"
| "splitLines (c # cs) =
     (if c = CHR 0x0A then [] # splitLines cs
      else (case splitLines cs of l # ls \<Rightarrow> (c # l) # ls | [] \<Rightarrow> [[c]]))"

subsection \<open>Low-value pages\<close>

text \<open>Some suffix of a string satisfies a predicate: a match at some position.\<close>

fun somewhere :: "(string \<Rightarrow> bool) \<Rightarrow> string \<Rightarrow> bool" where
  "somewhere P [] = P []"
| "somewhere P (c # cs) = (P (c # cs) \<or> somewhere P cs)"

definition isWordChar :: "char \<Rightarrow> bool" where
  "isWordChar c = (isLower c \<or> isUpper c \<or> isDigit c \<or> c = CHR ''_'')"

text \<open>
  \<open>/lit\b/i\<close> for a literal that ends in a word character: the literal, then the end
  of the string or a character that is no word character.
\<close>

definition matchesWord :: "string \<Rightarrow> string \<Rightarrow> bool" where
  "matchesWord lit url =
     somewhere (\<lambda>s. ciPrefix lit s
                    \<and> (case drop (length lit) s of [] \<Rightarrow> True | c # cs \<Rightarrow> \<not> isWordChar c)) url"

text \<open>\<open>/lit/i\<close>.\<close>

definition matchesLiteral :: "string \<Rightarrow> string \<Rightarrow> bool" where
  "matchesLiteral lit url = somewhere (ciPrefix lit) url"

text \<open>
  \<open>/search\?.*q=$/i\<close>: \<open>search?\<close>, then characters other than line terminators, then
  \<open>q=\<close> at the end of the string.
\<close>

definition matchesSearchQuery :: "string \<Rightarrow> bool" where
  "matchesSearchQuery url =
     somewhere (\<lambda>s. ciPrefix ''search?'' s
                    \<and> (let r = drop 7 s
                        in 2 \<le> length r
                           \<and> toLowerCase (drop (length r - 2) r) = ''q=''
                           \<and> list_all (\<lambda>c. c \<noteq> CHR 0x0A \<and> c \<noteq> CHR 0x0D) r)) url"

text \<open>\<open>isLowValuePage\<close>: some pattern of \<open>LOW_VALUE_PATTERNS\<close> matches.\<close>

definition isLowValuePage :: "string \<Rightarrow> bool" where
  "isLowValuePage url =
     (list_ex (\<lambda>lit. matchesWord lit url)
        [''/login'', ''/register'', ''/thank-you'', ''/gracias'', ''/404'', ''/error'',
         ''/print'', ''/printer-friendly'', ''/account'', ''/profile'', ''/cart'', ''/checkout'']
      \<or> list_ex (\<lambda>lit. matchesLiteral lit url) [''?sort='', ''?filter='', ''?page='']
      \<or> matchesSearchQuery url)"

subsection \<open>The platform\<close>

text \<open>
  What the network gives for a URL: no response (a network error), or a response after a
  latency in milliseconds, with its \<open>ok\<close> flag and its body, a list of bytes (8-bit
  characters).
\<close>

datatype fetched = NetworkError | HttpResponse nat bool string

text \<open>
  The builtins the file calls are parameters of the model:
  \<^item> \<open>fetch\<close>;
  \<^item> \<open>gunzipSync(Buffer.from(bytes)).toString('utf-8')\<close>, the text of a decompressed
    body (\<open>None\<close> when it throws);
  \<^item> \<open>new TextDecoder().decode(bytes)\<close>, the text of a body;
  \<^item> \<open>new URL(input)\<close> and \<open>new URL(input, base)\<close> (\<open>None\<close> when it throws);
  \<^item> the \<open>Date\<close> parser behind \<open>isValidISO8601\<close> (the whole test is taken as the
    platform's).
\<close>

record platform =
  pf_fetch :: "string \<Rightarrow> fetched"
  pf_gunzipSync :: "string \<Rightarrow> string option"
  pf_decode :: "string \<Rightarrow> string"
  pf_URL :: "string \<Rightarrow> string option \<Rightarrow> URL option"
  pf_isValidISO8601 :: "string \<Rightarrow> bool"

text \<open>
  \<open>fetchSitemapContent\<close>: \<open>None\<close> is its rejection: a network error, an abort after
  \<open>timeout\<close> milliseconds, or a response that is not \<open>ok\<close>. A body that starts with
  the bytes \<open>0x1f 0x8b\<close> is decompressed; if decompression throws, the bytes are decoded
  as they are.
\<close>

fun isGzipped :: "string \<Rightarrow> bool" where
  "isGzipped (b0 # b1 # rest) = (b0 = CHR 0x1F \<and> b1 = CHR 0x8B)"
| "isGzipped bytes = False"

definition fetchSitemapContent :: "platform \<Rightarrow> string \<Rightarrow> nat \<Rightarrow> (string \<times> bool) option" where
  "fetchSitemapContent P url timeout =
     (case pf_fetch P url of
        NetworkError \<Rightarrow> None
      | HttpResponse latency ok bytes \<Rightarrow>
          if timeout \<le> latency then None
          else if \<not> ok then None
          else if isGzipped bytes
          then (case pf_gunzipSync P bytes of
                  Some decompressed \<Rightarrow> Some (decompressed, True)
                | None \<Rightarrow> Some (pf_decode P bytes, False))
          else Some (pf_decode P bytes, False))"

subsection \<open>Extraction\<close>

text \<open>
  \<open>extractUrlsFromXML\<close>: the pieces after each \<open><url ...>\<close>, each cut at its first
  \<open></url>\<close>; a piece without \<open></url>\<close> or without a \<open>loc\<close> element is skipped. (The
  \<open>catch\<close> of the source is dead code: nothing in the \<open>try\<close> throws.)
\<close>

definition extractBlock :: "platform \<Rightarrow> string \<Rightarrow> (string \<times> string option) option" where
  "extractBlock P block =
     (case beforeFirst ''</url>'' block of
        None \<Rightarrow> None
      | Some urlContent \<Rightarrow>
          (case matchFirstTag ''loc'' urlContent of
             None \<Rightarrow> None
           | Some loc \<Rightarrow>
               Some (trim loc,
                     (case matchFirstTag ''lastmod'' urlContent of
                        None \<Rightarrow> None
                      | Some d \<Rightarrow> if pf_isValidISO8601 P (trim d) then Some (trim d) else None))))"

definition extractUrlsFromXML :: "platform \<Rightarrow> string \<Rightarrow> (string \<times> string option) list" where
  "extractUrlsFromXML P content =
     List.map_filter (extractBlock P) (tl (splitUrlOpen 0 [] content))"

text \<open>\<open>isValidUrl\<close>: the string parses and its protocol is \<open>http:\<close> or \<open>https:\<close>.\<close>

definition isValidUrl :: "platform \<Rightarrow> string \<Rightarrow> bool" where
  "isValidUrl P urlString =
     (case pf_URL P urlString None of
        None \<Rightarrow> False
      | Some url \<Rightarrow> protocol url = ''http:'' \<or> protocol url = ''https:'')"

subsection \<open>\<open>analyzeSitemap\<close>\<close>

record SitemapAnalysisOptions =
  opt_maxChildSitemaps :: "nat option"
  opt_timeout :: "nat option"
  opt_childTimeout :: "nat option"
  opt_maxUrls :: "nat option"
  opt_detectLowValue :: "bool option"

text \<open>The defaults of the destructuring at the head of \<open>analyzeSitemap\<close>.\<close>

definition maxChildSitemapsOf :: "SitemapAnalysisOptions \<Rightarrow> nat" where
  "maxChildSitemapsOf options = (case opt_maxChildSitemaps options of Some n \<Rightarrow> n | None \<Rightarrow> 50)"

definition timeoutOf :: "SitemapAnalysisOptions \<Rightarrow> nat" where
  "timeoutOf options = (case opt_timeout options of Some n \<Rightarrow> n | None \<Rightarrow> 15000)"

definition childTimeoutOf :: "SitemapAnalysisOptions \<Rightarrow> nat" where
  "childTimeoutOf options = (case opt_childTimeout options of Some n \<Rightarrow> n | None \<Rightarrow> 10000)"

definition maxUrlsOf :: "SitemapAnalysisOptions \<Rightarrow> nat" where
  "maxUrlsOf options = (case opt_maxUrls options of Some n \<Rightarrow> n | None \<Rightarrow> 1000)"

definition detectLowValueOf :: "SitemapAnalysisOptions \<Rightarrow> bool" where
  "detectLowValueOf options = (case opt_detectLowValue options of Some b \<Rightarrow> b | None \<Rightarrow> True)"

text \<open>\<open>{...options, timeout: childTimeout}\<close>, the options of a recursive call.\<close>

definition childOptions :: "SitemapAnalysisOptions \<Rightarrow> SitemapAnalysisOptions" where
  "childOptions options = options\<lparr> opt_timeout := Some (childTimeoutOf options) \<rparr>"

text \<open>\<open>String.prototype.endsWith\<close>.\<close>

definition endsWith :: "string \<Rightarrow> string \<Rightarrow> bool" where
  "endsWith s lit = suffix lit s"

text \<open>
  \<open>isSpecificSitemap\<close>: the base URL names a sitemap file.
\<close>

definition isSpecificSitemap :: "string \<Rightarrow> bool" where
  "isSpecificSitemap baseUrl =
     (str_includes baseUrl ''sitemap''
      \<and> (endsWith baseUrl ''.xml'' \<or> endsWith baseUrl ''.xml.gz'' \<or> endsWith baseUrl ''.txt''))"

text \<open>
  The URLs to try, in order: the URL itself when it names a sitemap file, otherwise the
  hint of \<open>robots.txt\<close> and the five conventional paths on the origin of the base URL,
  those that are valid URLs. \<open>None\<close>: \<open>new URL(path, baseUrl)\<close> throws, and with it the
  call.
\<close>

definition conventionalPaths :: "string list" where
  "conventionalPaths = [''/sitemap.xml'', ''/sitemap.xml.gz'', ''/sitemap_index.xml'',
     ''/sitemap_index.xml.gz'', ''/sitemap.txt'']"

definition sitemapCandidates :: "platform \<Rightarrow> string \<Rightarrow> string option \<Rightarrow> string list option" where
  "sitemapCandidates P baseUrl robotsSitemap =
     (if isSpecificSitemap baseUrl then Some [baseUrl]
      else if list_ex (\<lambda>path. pf_URL P path (Some baseUrl) = None) conventionalPaths then None
      else Some (filter (isValidUrl P)
                   ((case robotsSitemap of
                       None \<Rightarrow> []
                     | Some hint \<Rightarrow> if hint = [] then [] else [hint])
                    @ map (\<lambda>path. href (the (pf_URL P path (Some baseUrl)))) conventionalPaths)))"

text \<open>The loop over the candidates up to the first one that fetches.\<close>

fun firstFetched :: "platform \<Rightarrow> nat \<Rightarrow> string list \<Rightarrow> (string \<times> bool) option" where
  "firstFetched P timeout [] = None"
| "firstFetched P timeout (sitemapUrl # rest) =
     (case fetchSitemapContent P sitemapUrl timeout of
        Some r \<Rightarrow> Some r
      | None \<Rightarrow> firstFetched P timeout rest)"

text \<open>The child sitemaps a sitemap index names: the valid \<open>loc\<close> texts, cut to the maximum.\<close>

definition childSitemapsOf :: "platform \<Rightarrow> nat \<Rightarrow> string \<Rightarrow> string list" where
  "childSitemapsOf P maxChildSitemaps content =
     take maxChildSitemaps (filter (isValidUrl P) (map trim (matchAllTag ''loc'' 0 content)))"

definition sitemapIssue :: "issue_type \<Rightarrow> string \<Rightarrow> issue_priority \<Rightarrow> issue" where
  "sitemapIssue t m p = \<lparr> itype = t, message = m, priority = p, category = ''technical'' \<rparr>"

text \<open>The result when no candidate fetches.\<close>

definition sitemapNotFound :: SitemapAnalysis where
  "sitemapNotFound =
     \<lparr> sm_exists = False, sm_accessible = False, sm_isValidXml = False, sm_totalUrls = 0,
       sm_urls = [], sm_childSitemaps = [],
       sm_issues = [sitemapIssue IssueError ''Sitemap no encontrado o no accesible'' High],
       sm_lastModified = None, sm_isCompressed = False, sm_lowValueUrls = 0,
       sm_truncated = None \<rparr>"

text \<open>
  The outcome of a call with a bound on the depth of the recursion: \<open>None\<close> when the
  bound is used up, \<open>Some (Inl ())\<close> when the call rejects, \<open>Some (Inr a)\<close> when it
  resolves with \<open>a\<close>.
\<close>

type_synonym sitemap_outcome = "(unit + SitemapAnalysis) option"

text \<open>
  The loop over the child sitemaps: each child's URLs and issues are appended; a child
  that rejects adds a warning. The loop has no outcome when a child has none.
\<close>

fun collectChildren ::
  "(string \<Rightarrow> sitemap_outcome) \<Rightarrow> string list \<Rightarrow> SitemapUrl list \<times> issue list
     \<Rightarrow> (SitemapUrl list \<times> issue list) option" where
  "collectChildren call [] acc = Some acc"
| "collectChildren call (childSitemapUrl # rest) acc =
     (case call childSitemapUrl of
        None \<Rightarrow> None
      | Some (Inr childResult) \<Rightarrow>
          collectChildren call rest
            (fst acc @ sm_urls childResult, snd acc @ sm_issues childResult)
      | Some (Inl u) \<Rightarrow>
          collectChildren call rest
            (fst acc, snd acc @ [sitemapIssue IssueWarning
                                   (''Error al procesar sitemap hijo '' @ childSitemapUrl) Low]))"

text \<open>The issues added after the extraction, for an XML sitemap.\<close>

definition xmlIssues ::
  "bool \<Rightarrow> SitemapUrl list \<Rightarrow> string list \<Rightarrow> issue list \<Rightarrow> issue list" where
  "xmlIssues detectLowValue urls childSitemaps issues0 =
     (let issues1 = issues0
            @ (if length urls = 0 \<and> length childSitemaps = 0
               then [sitemapIssue IssueWarning ''Sitemap no contiene URLs'' Medium] else []);
          lowValueUrls = length (filter su_isLowValue urls);
          issues2 = issues1
            @ (if detectLowValue \<and> 5 * lowValueUrls > length urls
               then [sitemapIssue IssueWarning ''URLs de bajo valor detectadas (login, cart, etc.)''
                       Medium] else [])
      in if length issues2 = 0
         then [sitemapIssue IssueSuccess ''Sitemap configurado correctamente'' Low]
         else issues2)"

text \<open>
  The body of the loop of \<open>analyzeSitemap\<close> after the fetch (lines 326-443): what the
  call returns for the content of the first candidate that answers; \<open>call\<close> is the
  recursive call on a child sitemap. The field \<open>responseTime\<close> (a clock reading) is left
  out; the field \<open>truncated\<close> of the type \<open>SitemapAnalysis\<close> is never written by the
  function. The messages of the issues are written without accents and without the
  interpolated count or error text.
\<close>

definition analyzeContent ::
  "(string \<Rightarrow> sitemap_outcome) \<Rightarrow> platform \<Rightarrow> SitemapAnalysisOptions \<Rightarrow> string \<Rightarrow> bool
     \<Rightarrow> sitemap_outcome" where
  "analyzeContent call P options content isCompressed =
     (let hasXmlDeclaration = str_includes content ''<?xml'';
          hasUrlset = str_includes content ''<urlset'';
          hasSitemapIndex = str_includes content ''<sitemapindex'';
          detectLowValue = detectLowValueOf options
      in if hasUrlset \<or> hasSitemapIndex
         then
           (let issues0 = (if \<not> hasXmlDeclaration
                           then [sitemapIssue IssueWarning
                                   ''Sitemap XML no tiene declaracion XML'' Low]
                           else [])
            in if hasSitemapIndex
               then
                 (let childSitemaps = childSitemapsOf P (maxChildSitemapsOf options) content
                  in case collectChildren call childSitemaps ([], issues0) of
                       None \<Rightarrow> None
                     | Some (urls, issues1) \<Rightarrow>
                         Some (Inr
                           \<lparr> sm_exists = True, sm_accessible = True,
                             sm_isValidXml = True, sm_totalUrls = length urls,
                             sm_urls = urls, sm_childSitemaps = childSitemaps,
                             sm_issues = xmlIssues detectLowValue urls childSitemaps issues1,
                             sm_lastModified = None, sm_isCompressed = isCompressed,
                             sm_lowValueUrls = length (filter su_isLowValue urls),
                             sm_truncated = None \<rparr>))
               else
                 (let urls = map (\<lambda>(u, lastModified).
                                    \<lparr> su_url = u, su_lastModified = lastModified,
                                      su_isLowValue =
                                        (if detectLowValue then isLowValuePage u else False) \<rparr>)
                               (take (maxUrlsOf options) (extractUrlsFromXML P content))
                  in Some (Inr
                       \<lparr> sm_exists = True, sm_accessible = True,
                         sm_isValidXml = True, sm_totalUrls = length urls,
                         sm_urls = urls, sm_childSitemaps = [],
                         sm_issues = xmlIssues detectLowValue urls [] issues0,
                         sm_lastModified = None, sm_isCompressed = isCompressed,
                         sm_lowValueUrls = length (filter su_isLowValue urls),
                         sm_truncated = None \<rparr>)))
         else
           (let lines = filter (\<lambda>line. trim line \<noteq> []) (splitLines content);
                urls = map (\<lambda>line.
                              \<lparr> su_url = trim line, su_lastModified = None,
                                su_isLowValue =
                                  (if detectLowValue then isLowValuePage line else False) \<rparr>)
                         (take (maxUrlsOf options) lines)
            in Some (Inr
                 \<lparr> sm_exists = True, sm_accessible = True, sm_isValidXml = False,
                   sm_totalUrls = length urls, sm_urls = urls, sm_childSitemaps = [],
                   sm_issues = (if length urls > 0
                                then [sitemapIssue IssueWarning
                                        ''Sitemap en formato texto plano en lugar de XML''
                                        Low]
                                else []),
                   sm_lastModified = None, sm_isCompressed = isCompressed,
                   sm_lowValueUrls = length (filter su_isLowValue urls),
                   sm_truncated = None \<rparr>)))"

text \<open>
  \<open>analyzeSitemap\<close>, with the depth of its recursion bounded by the first argument: the
  candidates are tried in order, the first that fetches decides the result, and a child
  sitemap is analysed by a call of the function on the child's URL, with no hint and
  with the child timeout.
\<close>

fun analyzeSitemap ::
  "nat \<Rightarrow> platform \<Rightarrow> string \<Rightarrow> string option \<Rightarrow> SitemapAnalysisOptions \<Rightarrow> sitemap_outcome" where
  "analyzeSitemap 0 P baseUrl robotsSitemap options = None"
| "analyzeSitemap (Suc depth) P baseUrl robotsSitemap options =
     (case sitemapCandidates P baseUrl robotsSitemap of
        None \<Rightarrow> Some (Inl ())
      | Some sitemapUrls \<Rightarrow>
          (case firstFetched P (timeoutOf options) sitemapUrls of
             None \<Rightarrow> Some (Inr sitemapNotFound)
           | Some (content, isCompressed) \<Rightarrow>
               analyzeContent
                 (\<lambda>childSitemapUrl. analyzeSitemap depth P childSitemapUrl None
                                       (childOptions options))
                 P options content isCompressed))"

text \<open>
  The recursive calls a call makes: the child sitemaps of the document it fetches, when
  that document is a sitemap index.
\<close>

definition recursiveCalls ::
  "platform \<Rightarrow> string \<Rightarrow> string option \<Rightarrow> SitemapAnalysisOptions \<Rightarrow> string list" where
  "recursiveCalls P baseUrl robotsSitemap options =
     (case sitemapCandidates P baseUrl robotsSitemap of
        None \<Rightarrow> []
      | Some sitemapUrls \<Rightarrow>
          (case firstFetched P (timeoutOf options) sitemapUrls of
             None \<Rightarrow> []
           | Some (content, isCompressed) \<Rightarrow>
               if str_includes content ''<sitemapindex''
               then childSitemapsOf P (maxChildSitemapsOf options) content
               else []))"

text \<open>The URLs a child contributes to its parent: those of a call that resolves.\<close>

definition childUrlsOf :: "sitemap_outcome \<Rightarrow> SitemapUrl list" where
  "childUrlsOf outcome = (case outcome of Some (Inr r) \<Rightarrow> sm_urls r | _ \<Rightarrow> [])"

text \<open>
  The URLs a document that is no sitemap index lists, in the order of the document: the
  \<open>loc\<close> of each \<open>url\<close> element of a \<open>urlset\<close>, the lines of a text that are not
  blank otherwise.
\<close>

definition documentUrls :: "platform \<Rightarrow> string \<Rightarrow> string list" where
  "documentUrls P content =
     (if str_includes content ''<urlset''
      then map fst (extractUrlsFromXML P content)
      else map trim (filter (\<lambda>line. trim line \<noteq> []) (splitLines content)))"

subsection \<open>Example sites\<close>

text \<open>
  The parser of the example sites is the model of the \<open>URL\<close> class given above; the
  URLs the examples parse are of the kind it covers. Their decoder keeps an ASCII byte
  as its character and writes the character \<open>0xFF\<close> for any other byte (where the
  builtin writes \<open>U+FFFD\<close>, which is no character of this model); the bodies of the
  examples are ASCII but for the second byte of the gzip magic number.
\<close>

definition modelURL :: "string \<Rightarrow> string option \<Rightarrow> URL option" where
  "modelURL input base =
     (case base of None \<Rightarrow> URL_new input | Some b \<Rightarrow> URL_resolve input b)"

definition asciiDecode :: "string \<Rightarrow> string" where
  "asciiDecode bytes = map (\<lambda>b. if of_char b < (128::nat) then b else CHR 0xFF) bytes"

text \<open>A site that answers the given URLs in 20 ms and no other.\<close>

definition siteOf :: "(string \<times> string) list \<Rightarrow> (string \<Rightarrow> string option) \<Rightarrow> platform" where
  "siteOf documents gunzip =
     \<lparr> pf_fetch = (\<lambda>u. case map_of documents u of
                          Some body \<Rightarrow> HttpResponse 20 True body
                        | None \<Rightarrow> NetworkError),
       pf_gunzipSync = gunzip,
       pf_decode = asciiDecode,
       pf_URL = modelURL,
       pf_isValidISO8601 = (\<lambda>d. False) \<rparr>"

text \<open>The options of a call that passes none.\<close>

definition defaultOptions :: SitemapAnalysisOptions where
  "defaultOptions = \<lparr> opt_maxChildSitemaps = None, opt_timeout = None, opt_childTimeout = None,
     opt_maxUrls = None, opt_detectLowValue = None \<rparr>"


definition selfUrl :: string where
  "selfUrl = ''https://example.com/sitemap.xml''"



text \<open>
  A site whose \<open>/sitemap.xml\<close> is a sitemap index that names \<open>/products.xml\<close>, a
  \<open>urlset\<close> of one page: no document refers to itself.
\<close>

definition productsUrl :: string where
  "productsUrl = ''https://example.com/products.xml''"

definition productsIndex :: string where
  "productsIndex = ''<sitemapindex><sitemap><loc>https://example.com/products.xml</loc></sitemap></sitemapindex>''"

definition pageSet :: string where
  "pageSet = ''<urlset><url><loc>https://example.com/page</loc></url></urlset>''"

definition prodWeb :: platform where
  "prodWeb = siteOf [(selfUrl, productsIndex), (productsUrl, pageSet)] (\<lambda>b. None)"

text \<open>
  A site with a sitemap index of two children, each a \<open>urlset\<close> that lists the same
  page.
\<close>

definition childA :: string where
  "childA = ''https://example.com/sitemap-a.xml''"

definition childB :: string where
  "childB = ''https://example.com/sitemap-b.xml''"

definition treeIndex :: string where
  "treeIndex = ''<sitemapindex><sitemap><loc>https://example.com/sitemap-a.xml</loc></sitemap><sitemap><loc>https://example.com/sitemap-b.xml</loc></sitemap></sitemapindex>''"

definition treeWeb :: platform where
  "treeWeb = siteOf [(selfUrl, treeIndex), (childA, pageSet), (childB, pageSet)] (\<lambda>b. None)"


text \<open>
  Two sites without \<open>/sitemap.xml\<close> whose \<open>/sitemap.xml.gz\<close> starts with the gzip magic
  number: the body of the first decompresses to the \<open>urlset\<close> above, the body of the
  second does not decompress.
\<close>

definition gzUrl :: string where
  "gzUrl = ''https://example.com/sitemap.xml.gz''"

definition goodGzBytes :: string where
  "goodGzBytes = [CHR 0x1F, CHR 0x8B, CHR 0x08, CHR 0x01]"

definition badGzBytes :: string where
  "badGzBytes = [CHR 0x1F, CHR 0x8B, CHR 0x08, CHR 0x02]"

definition gzWeb :: platform where
  "gzWeb = siteOf [(gzUrl, goodGzBytes)] (\<lambda>b. if b = goodGzBytes then Some pageSet else None)"

definition corruptGzWeb :: platform where
  "corruptGzWeb = siteOf [(gzUrl, badGzBytes)] (\<lambda>b. None)"

subsection \<open>Facts about \<open>analyzeSitemap\<close>\<close>

lemma collectChildren_None_iff:
  "(collectChildren call cs acc = None) = (\<exists>c \<in> set cs. call c = None)"
  by (induction cs arbitrary: acc) (auto split: option.splits sum.splits)

lemma collectChildren_urls:
  "collectChildren call cs (us, iss) = Some (urls, issues)
     \<Longrightarrow> urls = us @ concat (map (\<lambda>c. childUrlsOf (call c)) cs)"
proof (induction cs arbitrary: us iss)
  case Nil
  then show ?case by simp
next
  case (Cons c cs)
  show ?case
  proof (cases "call c")
    case None
    then show ?thesis using Cons.prems by simp
  next
    case (Some v)
    show ?thesis
    proof (cases v)
      case (Inl u)
      then have "collectChildren call cs (us, iss @ [sitemapIssue IssueWarning
                  (''Error al procesar sitemap hijo '' @ c) Low]) = Some (urls, issues)"
        using Cons.prems Some by simp
      from Cons.IH [OF this] show ?thesis using Some Inl by (simp add: childUrlsOf_def)
    next
      case (Inr r)
      then have "collectChildren call cs (us @ sm_urls r, iss @ sm_issues r) = Some (urls, issues)"
        using Cons.prems Some by simp
      from Cons.IH [OF this] show ?thesis using Some Inr by (simp add: childUrlsOf_def)
    qed
  qed
qed


lemma analyzeContent_leaf:
  assumes "\<not> str_includes content ''<sitemapindex''"
  shows "\<exists>a. analyzeContent call P options content z = Some (Inr a)
           \<and> map su_url (sm_urls a) = take (maxUrlsOf options) (documentUrls P content)
           \<and> sm_childSitemaps a = []
           \<and> sm_totalUrls a = length (sm_urls a) \<and> sm_truncated a = None
           \<and> sm_exists a \<and> sm_accessible a \<and> sm_isCompressed a = z"
proof (cases "str_includes content ''<urlset''")
  case True
  have "map su_url (map (\<lambda>(u, lastModified).
            \<lparr> su_url = u, su_lastModified = lastModified,
              su_isLowValue = (if detectLowValueOf options then isLowValuePage u else False) \<rparr>)
          (take (maxUrlsOf options) (extractUrlsFromXML P content)))
      = take (maxUrlsOf options) (map fst (extractUrlsFromXML P content))"
    by (simp add: take_map split_def comp_def)
  then show ?thesis
    using assms True by (simp add: analyzeContent_def documentUrls_def Let_def)
next
  case False
  have "map su_url (map (\<lambda>line.
            \<lparr> su_url = trim line, su_lastModified = None,
              su_isLowValue = (if detectLowValueOf options then isLowValuePage line else False) \<rparr>)
          (take (maxUrlsOf options) (filter (\<lambda>line. trim line \<noteq> []) (splitLines content))))
      = take (maxUrlsOf options)
          (map trim (filter (\<lambda>line. trim line \<noteq> []) (splitLines content)))"
    by (simp add: take_map comp_def)
  then show ?thesis
    using assms False by (simp add: analyzeContent_def documentUrls_def Let_def)
qed

lemma analyzeContent_index:
  assumes "str_includes content ''<sitemapindex''"
    and "\<forall>c \<in> set (childSitemapsOf P (maxChildSitemapsOf options) content). call c \<noteq> None"
  shows "\<exists>a. analyzeContent call P options content z = Some (Inr a)
           \<and> sm_childSitemaps a = childSitemapsOf P (maxChildSitemapsOf options) content
           \<and> sm_urls a = concat (map (\<lambda>c. childUrlsOf (call c))
                                    (childSitemapsOf P (maxChildSitemapsOf options) content))
           \<and> sm_totalUrls a = length (sm_urls a) \<and> sm_truncated a = None
           \<and> sm_exists a \<and> sm_accessible a \<and> sm_isCompressed a = z"
proof -
  let ?cs = "childSitemapsOf P (maxChildSitemapsOf options) content"
  let ?issues0 = "if \<not> str_includes content ''<?xml''
                  then [sitemapIssue IssueWarning ''Sitemap XML no tiene declaracion XML'' Low]
                  else []"
  have "collectChildren call ?cs ([], ?issues0) \<noteq> None"
    using assms(2) by (simp only: collectChildren_None_iff) simp
  then obtain urls issues1 where cc: "collectChildren call ?cs ([], ?issues0) = Some (urls, issues1)"
    by (cases "collectChildren call ?cs ([], ?issues0)") auto
  have u: "urls = concat (map (\<lambda>c. childUrlsOf (call c)) ?cs)"
    using collectChildren_urls [OF cc] by simp
  show ?thesis
    using assms(1) cc u by (simp add: analyzeContent_def Let_def)
qed

lemma analyzeContent_None_iff:
  "(analyzeContent call P options content z = None)
     = (str_includes content ''<sitemapindex''
        \<and> (\<exists>c \<in> set (childSitemapsOf P (maxChildSitemapsOf options) content). call c = None))"
proof (cases "str_includes content ''<sitemapindex''")
  case False
  then show ?thesis using analyzeContent_leaf [OF False, of call P options z] by auto
next
  case True
  show ?thesis
  proof (cases "\<exists>c \<in> set (childSitemapsOf P (maxChildSitemapsOf options) content). call c = None")
    case False
    then have "\<forall>c \<in> set (childSitemapsOf P (maxChildSitemapsOf options) content). call c \<noteq> None"
      by simp
    from analyzeContent_index [OF True this, of z] show ?thesis using False by auto
  next
    case e: True
    let ?issues0 = "if \<not> str_includes content ''<?xml''
                    then [sitemapIssue IssueWarning ''Sitemap XML no tiene declaracion XML'' Low]
                    else []"
    have "collectChildren call (childSitemapsOf P (maxChildSitemapsOf options) content)
            ([], ?issues0) = None"
      using e by (simp only: collectChildren_None_iff)
    then show ?thesis using True e by (simp add: analyzeContent_def Let_def)
  qed
qed

lemma analyzeContent_resolved:
  assumes "analyzeContent call P options content z = Some outcome"
  shows "\<exists>a. outcome = Inr a \<and> sm_exists a \<and> sm_accessible a \<and> sm_isCompressed a = z"
proof (cases "str_includes content ''<sitemapindex''")
  case False
  from analyzeContent_leaf [OF False, of call P options z] show ?thesis using assms by auto
next
  case True
  have "analyzeContent call P options content z \<noteq> None" using assms by simp
  then have "\<forall>c \<in> set (childSitemapsOf P (maxChildSitemapsOf options) content). call c \<noteq> None"
    using True by (simp only: analyzeContent_None_iff) simp
  from analyzeContent_index [OF True this, of z] show ?thesis using assms by auto
qed


lemma analyzeSitemap_fetched:
  assumes "sitemapCandidates P baseUrl robotsSitemap = Some sitemapUrls"
    and "firstFetched P (timeoutOf options) sitemapUrls = Some (content, z)"
  shows "analyzeSitemap (Suc depth) P baseUrl robotsSitemap options
     = analyzeContent (\<lambda>c. analyzeSitemap depth P c None (childOptions options))
         P options content z"
    and "recursiveCalls P baseUrl robotsSitemap options
     = (if str_includes content ''<sitemapindex''
        then childSitemapsOf P (maxChildSitemapsOf options) content else [])"
  using assms by (simp_all add: recursiveCalls_def)

lemma analyzeSitemap_None_iff:
  "(analyzeSitemap (Suc depth) P baseUrl robotsSitemap options = None)
     = (\<exists>c \<in> set (recursiveCalls P baseUrl robotsSitemap options).
          analyzeSitemap depth P c None (childOptions options) = None)"
proof (cases "sitemapCandidates P baseUrl robotsSitemap")
  case None
  then show ?thesis by (simp add: recursiveCalls_def)
next
  case (Some sitemapUrls)
  show ?thesis
  proof (cases "firstFetched P (timeoutOf options) sitemapUrls")
    case None
    then show ?thesis using Some by (simp add: recursiveCalls_def)
  next
    case f: (Some fetched)
    obtain content z where fc: "fetched = (content, z)" by (cases fetched)
    note eq = analyzeSitemap_fetched [OF Some f [unfolded fc]]
    show ?thesis unfolding eq analyzeContent_None_iff by auto
  qed
qed




lemma childOptions_idem: "childOptions (childOptions options) = childOptions options"
  by (simp add: childOptions_def childTimeoutOf_def)

text \<open>A call that is among its own children has no outcome.\<close>

lemma call_into_itself:
  assumes "c \<in> set (recursiveCalls P c None (childOptions options))"
  shows "analyzeSitemap depth P c None (childOptions options) = None"
proof (induction depth)
  case 0
  show ?case by simp
next
  case (Suc depth)
  show ?case
    unfolding analyzeSitemap_None_iff childOptions_idem using assms Suc by blast
qed

lemma firstFetched_skip:
  "list_all (\<lambda>u. fetchSitemapContent P u timeout = None) failed
     \<Longrightarrow> firstFetched P timeout (failed @ rest) = firstFetched P timeout rest"
  by (induction failed) simp_all

lemma fetch_gzip:
  assumes "pf_fetch P url = HttpResponse latency True bytes" "latency < timeout"
    and "isGzipped bytes"
  shows "fetchSitemapContent P url timeout
     = Some (case pf_gunzipSync P bytes of
               Some decompressed \<Rightarrow> (decompressed, True)
             | None \<Rightarrow> (pf_decode P bytes, False))"
  using assms by (simp add: fetchSitemapContent_def split: option.splits)

lemma child_options_default:
  "timeoutOf (childOptions defaultOptions) = 10000"
  "timeoutOf defaultOptions = 15000"
  "maxChildSitemapsOf (childOptions defaultOptions) = 50"
  "maxChildSitemapsOf defaultOptions = 50"
  "childOptions (childOptions defaultOptions) = childOptions defaultOptions"
  by (simp_all add: childOptions_def defaultOptions_def timeoutOf_def childTimeoutOf_def
      maxChildSitemapsOf_def)


lemma timeout_default: "(20::nat) < timeoutOf defaultOptions"
  by (simp add: timeoutOf_def defaultOptions_def)




text \<open>The site with the index that names \<open>/products.xml\<close>.\<close>

lemma prod_calls:
  "recursiveCalls prodWeb ''https://example.com'' None defaultOptions = [productsUrl]"
  "recursiveCalls prodWeb productsUrl None (childOptions defaultOptions) = [productsUrl]"
  "sitemapCandidates prodWeb productsUrl None
     = Some [selfUrl, ''https://example.com/sitemap.xml.gz'',
             ''https://example.com/sitemap_index.xml'', ''https://example.com/sitemap_index.xml.gz'',
             ''https://example.com/sitemap.txt'']"
  by code_simp+

lemma prod_child:
  "analyzeSitemap depth prodWeb productsUrl None (childOptions defaultOptions) = None"
  by (rule call_into_itself) (simp add: prod_calls)


lemma tree_docs:
  "\<not> str_includes pageSet ''<sitemapindex''"
  "str_includes pageSet ''<urlset''"
  "filter (isValidUrl treeWeb) (map trim (matchAllTag ''loc'' 0 treeIndex)) = [childA, childB]"
  "asciiDecode pageSet = pageSet" "asciiDecode treeIndex = treeIndex"
  "\<not> isGzipped pageSet" "\<not> isGzipped treeIndex"
  by code_simp+







text \<open>The sites with a compressed sitemap.\<close>

lemma gz_facts:
  "sitemapCandidates gzWeb ''https://example.com'' None
     = Some ([selfUrl] @ gzUrl # [''https://example.com/sitemap_index.xml'',
              ''https://example.com/sitemap_index.xml.gz'', ''https://example.com/sitemap.txt''])"
  "sitemapCandidates corruptGzWeb ''https://example.com'' None
     = Some ([selfUrl] @ gzUrl # [''https://example.com/sitemap_index.xml'',
              ''https://example.com/sitemap_index.xml.gz'', ''https://example.com/sitemap.txt''])"
  "fetchSitemapContent gzWeb selfUrl (timeoutOf defaultOptions) = None"
  "fetchSitemapContent corruptGzWeb selfUrl (timeoutOf defaultOptions) = None"
  "pf_fetch gzWeb gzUrl = HttpResponse 20 True goodGzBytes"
  "pf_fetch corruptGzWeb gzUrl = HttpResponse 20 True badGzBytes"
  "pf_gunzipSync gzWeb goodGzBytes = Some pageSet"
  "pf_gunzipSync corruptGzWeb badGzBytes = None"
  "\<not> str_includes (pf_decode corruptGzWeb badGzBytes) ''<sitemapindex''"
  "take (maxUrlsOf defaultOptions) (documentUrls gzWeb pageSet) = [''https://example.com/page'']"
  "take (maxUrlsOf defaultOptions) (documentUrls corruptGzWeb (pf_decode corruptGzWeb badGzBytes))
     = [pf_decode corruptGzWeb badGzBytes]"
  by code_simp+

subsection \<open>Termination of the recursion\<close>


text \<open>
  The same holds on a site where no document refers to itself: the index at
  \<open>/sitemap.xml\<close> names \<open>/products.xml\<close>, a \<open>urlset\<close>. The URL of the child does not
  name a sitemap file (it has no \<open>sitemap\<close> in it), so the call on the child tries the
  conventional paths of the child's origin, fetches the index again and recurses into
  the same child.
\<close>

theorem unnamed_child_refetches_index:
  "sitemapCandidates prodWeb productsUrl None
     = Some [selfUrl, ''https://example.com/sitemap.xml.gz'',
             ''https://example.com/sitemap_index.xml'', ''https://example.com/sitemap_index.xml.gz'',
             ''https://example.com/sitemap.txt'']
   \<and> recursiveCalls prodWeb productsUrl None (childOptions defaultOptions) = [productsUrl]
   \<and> (\<forall>depth. analyzeSitemap depth prodWeb ''https://example.com'' None defaultOptions = None)"
proof -
  have "analyzeSitemap depth prodWeb ''https://example.com'' None defaultOptions = None" for depth
  proof (cases depth)
    case 0
    then show ?thesis by simp
  next
    case (Suc d)
    show ?thesis
      unfolding Suc analyzeSitemap_None_iff prod_calls by (simp add: prod_child)
  qed
  then show ?thesis using prod_calls by simp
qed



subsection \<open>The list of URLs a call returns\<close>




subsection \<open>Compressed sitemaps\<close>

text \<open>
  Claim C7. Let a candidate of the call answer \<open>ok\<close> within the timeout with a body
  that starts with the bytes \<open>0x1f 0x8b\<close>, the candidates before it having failed. Then
  \<open>fetchSitemapContent\<close> resolves, with the decompressed text and \<open>isCompressed: true\<close>
  when decompression returns, with the decoded bytes and \<open>isCompressed: false\<close> when it
  throws; the call goes on with that text as with the text of any sitemap; it does not
  reject, and when it returns its result exists, is accessible, and is marked compressed
  exactly when decompression returned. For a text that is no sitemap index the call
  returns, with the first \<open>maxUrls\<close> URLs of the decompressed text, or of the decoded
  bytes when decompression throws.
\<close>

theorem gzip_sniffed_with_fallback:
  assumes "sitemapCandidates P baseUrl robotsSitemap = Some (failed @ url # others)"
    and "list_all (\<lambda>u. fetchSitemapContent P u (timeoutOf options) = None) failed"
    and "pf_fetch P url = HttpResponse latency True bytes"
    and "latency < timeoutOf options"
    and "bytes = CHR 0x1F # CHR 0x8B # rest"
  shows "fetchSitemapContent P url (timeoutOf options)
           = Some (case pf_gunzipSync P bytes of
                     Some decompressed \<Rightarrow> (decompressed, True)
                   | None \<Rightarrow> (pf_decode P bytes, False))
    \<and> analyzeSitemap (Suc depth) P baseUrl robotsSitemap options
        = (case pf_gunzipSync P bytes of
             Some decompressed \<Rightarrow>
               analyzeContent (\<lambda>c. analyzeSitemap depth P c None (childOptions options))
                 P options decompressed True
           | None \<Rightarrow>
               analyzeContent (\<lambda>c. analyzeSitemap depth P c None (childOptions options))
                 P options (pf_decode P bytes) False)
    \<and> analyzeSitemap (Suc depth) P baseUrl robotsSitemap options \<noteq> Some (Inl ())
    \<and> (\<forall>outcome. analyzeSitemap (Suc depth) P baseUrl robotsSitemap options = Some outcome
          \<longrightarrow> (\<exists>a. outcome = Inr a \<and> sm_exists a \<and> sm_accessible a
                \<and> sm_isCompressed a = (pf_gunzipSync P bytes \<noteq> None)))
    \<and> (\<forall>decompressed. pf_gunzipSync P bytes = Some decompressed
          \<and> \<not> str_includes decompressed ''<sitemapindex''
          \<longrightarrow> (\<exists>a. analyzeSitemap (Suc depth) P baseUrl robotsSitemap options = Some (Inr a)
                \<and> sm_exists a \<and> sm_accessible a \<and> sm_isCompressed a
                \<and> map su_url (sm_urls a)
                    = take (maxUrlsOf options) (documentUrls P decompressed)))
    \<and> (pf_gunzipSync P bytes = None \<and> \<not> str_includes (pf_decode P bytes) ''<sitemapindex''
          \<longrightarrow> (\<exists>a. analyzeSitemap (Suc depth) P baseUrl robotsSitemap options = Some (Inr a)
                \<and> sm_exists a \<and> sm_accessible a \<and> \<not> sm_isCompressed a
                \<and> map su_url (sm_urls a)
                    = take (maxUrlsOf options) (documentUrls P (pf_decode P bytes))))"
proof -
  let ?call = "\<lambda>c. analyzeSitemap depth P c None (childOptions options)"
  let ?fetched = "case pf_gunzipSync P bytes of
                    Some decompressed \<Rightarrow> (decompressed, True)
                  | None \<Rightarrow> (pf_decode P bytes, False)"
  have g: "isGzipped bytes" unfolding assms(5) by simp
  have f: "fetchSitemapContent P url (timeoutOf options) = Some ?fetched"
    by (rule fetch_gzip [OF assms(3,4) g])
  have "firstFetched P (timeoutOf options) (failed @ url # others)
      = firstFetched P (timeoutOf options) (url # others)"
    by (rule firstFetched_skip [OF assms(2)])
  then have ff: "firstFetched P (timeoutOf options) (failed @ url # others)
      = Some (fst ?fetched, snd ?fetched)"
    using f by simp
  note eq = analyzeSitemap_fetched(1) [OF assms(1) ff, of depth]
  have call: "analyzeSitemap (Suc depth) P baseUrl robotsSitemap options
        = (case pf_gunzipSync P bytes of
             Some decompressed \<Rightarrow> analyzeContent ?call P options decompressed True
           | None \<Rightarrow> analyzeContent ?call P options (pf_decode P bytes) False)"
    unfolding eq by (simp split: option.splits)
  have z: "snd ?fetched = (pf_gunzipSync P bytes \<noteq> None)" by (simp split: option.splits)
  have res: "\<forall>outcome. analyzeSitemap (Suc depth) P baseUrl robotsSitemap options = Some outcome
      \<longrightarrow> (\<exists>a. outcome = Inr a \<and> sm_exists a \<and> sm_accessible a
            \<and> sm_isCompressed a = (pf_gunzipSync P bytes \<noteq> None))"
    unfolding eq using analyzeContent_resolved [of ?call P options "fst ?fetched" "snd ?fetched"] z
    by auto
  then have rej: "analyzeSitemap (Suc depth) P baseUrl robotsSitemap options \<noteq> Some (Inl ())"
    by auto
  have good: "\<forall>decompressed. pf_gunzipSync P bytes = Some decompressed
          \<and> \<not> str_includes decompressed ''<sitemapindex''
          \<longrightarrow> (\<exists>a. analyzeSitemap (Suc depth) P baseUrl robotsSitemap options = Some (Inr a)
                \<and> sm_exists a \<and> sm_accessible a \<and> sm_isCompressed a
                \<and> map su_url (sm_urls a)
                    = take (maxUrlsOf options) (documentUrls P decompressed))"
  proof (intro allI impI)
    fix decompressed
    assume h: "pf_gunzipSync P bytes = Some decompressed
          \<and> \<not> str_includes decompressed ''<sitemapindex''"
    from analyzeContent_leaf [OF conjunct2 [OF h], of ?call P options True]
    show "\<exists>a. analyzeSitemap (Suc depth) P baseUrl robotsSitemap options = Some (Inr a)
        \<and> sm_exists a \<and> sm_accessible a \<and> sm_isCompressed a
        \<and> map su_url (sm_urls a) = take (maxUrlsOf options) (documentUrls P decompressed)"
      unfolding call using h by auto
  qed
  have bad: "pf_gunzipSync P bytes = None \<and> \<not> str_includes (pf_decode P bytes) ''<sitemapindex''
          \<longrightarrow> (\<exists>a. analyzeSitemap (Suc depth) P baseUrl robotsSitemap options = Some (Inr a)
                \<and> sm_exists a \<and> sm_accessible a \<and> \<not> sm_isCompressed a
                \<and> map su_url (sm_urls a)
                    = take (maxUrlsOf options) (documentUrls P (pf_decode P bytes)))"
  proof
    assume h: "pf_gunzipSync P bytes = None
        \<and> \<not> str_includes (pf_decode P bytes) ''<sitemapindex''"
    from analyzeContent_leaf [OF conjunct2 [OF h], of ?call P options False]
    show "\<exists>a. analyzeSitemap (Suc depth) P baseUrl robotsSitemap options = Some (Inr a)
        \<and> sm_exists a \<and> sm_accessible a \<and> \<not> sm_isCompressed a
        \<and> map su_url (sm_urls a)
            = take (maxUrlsOf options) (documentUrls P (pf_decode P bytes))"
      unfolding call using h by auto
  qed
  show ?thesis
    apply (intro conjI)
         apply (rule f)
        apply (rule call)
       apply (rule rej)
      apply (rule res)
     apply (rule good)
    apply (rule bad)
    done
qed

text \<open>
  The theorem on the two sites without \<open>/sitemap.xml\<close> whose \<open>/sitemap.xml.gz\<close> starts
  with the magic number: the call on the origin skips the first candidate; on the site
  whose body decompresses it returns the page of the decompressed \<open>urlset\<close>, marked
  compressed; on the site whose body does not decompress it returns the decoded bytes as
  a sitemap in text format, not marked compressed.
\<close>

theorem gzip_sniffed_with_fallback_witness:
  "fetchSitemapContent gzWeb gzUrl (timeoutOf defaultOptions) = Some (pageSet, True)
   \<and> (\<exists>a. analyzeSitemap (Suc 0) gzWeb ''https://example.com'' None defaultOptions = Some (Inr a)
          \<and> sm_exists a \<and> sm_accessible a \<and> sm_isCompressed a
          \<and> map su_url (sm_urls a) = [''https://example.com/page''])
   \<and> fetchSitemapContent corruptGzWeb gzUrl (timeoutOf defaultOptions)
        = Some (pf_decode corruptGzWeb badGzBytes, False)
   \<and> (\<exists>a. analyzeSitemap (Suc 0) corruptGzWeb ''https://example.com'' None defaultOptions
            = Some (Inr a)
          \<and> sm_exists a \<and> sm_accessible a \<and> \<not> sm_isCompressed a
          \<and> map su_url (sm_urls a) = [pf_decode corruptGzWeb badGzBytes])"
proof -
  have g: "goodGzBytes = CHR 0x1F # CHR 0x8B # [CHR 0x08, CHR 0x01]"
    by (simp add: goodGzBytes_def)
  have b: "badGzBytes = CHR 0x1F # CHR 0x8B # [CHR 0x08, CHR 0x02]"
    by (simp add: badGzBytes_def)
  have s1: "list_all (\<lambda>u. fetchSitemapContent gzWeb u (timeoutOf defaultOptions) = None) [selfUrl]"
    by (simp add: gz_facts(3))
  have s2: "list_all (\<lambda>u. fetchSitemapContent corruptGzWeb u (timeoutOf defaultOptions) = None)
      [selfUrl]"
    by (simp add: gz_facts(4))
  note good = gzip_sniffed_with_fallback [OF gz_facts(1) s1 gz_facts(5) timeout_default g, of 0]
  note bad = gzip_sniffed_with_fallback [OF gz_facts(2) s2 gz_facts(6) timeout_default b, of 0]
  have g1: "fetchSitemapContent gzWeb gzUrl (timeoutOf defaultOptions) = Some (pageSet, True)"
    using good by (simp add: gz_facts(7))
  have g2: "\<exists>a. analyzeSitemap (Suc 0) gzWeb ''https://example.com'' None defaultOptions
        = Some (Inr a)
      \<and> sm_exists a \<and> sm_accessible a \<and> sm_isCompressed a
      \<and> map su_url (sm_urls a) = take (maxUrlsOf defaultOptions) (documentUrls gzWeb pageSet)"
    using good gz_facts(7) tree_docs(1) by blast
  have b1: "fetchSitemapContent corruptGzWeb gzUrl (timeoutOf defaultOptions)
      = Some (pf_decode corruptGzWeb badGzBytes, False)"
    using bad by (simp add: gz_facts(8))
  have b2: "\<exists>a. analyzeSitemap (Suc 0) corruptGzWeb ''https://example.com'' None defaultOptions
        = Some (Inr a)
      \<and> sm_exists a \<and> sm_accessible a \<and> \<not> sm_isCompressed a
      \<and> map su_url (sm_urls a)
          = take (maxUrlsOf defaultOptions)
              (documentUrls corruptGzWeb (pf_decode corruptGzWeb badGzBytes))"
    using bad gz_facts(8,9) by blast
  show ?thesis
    using g1 g2 [unfolded gz_facts(10)] b1 b2 [unfolded gz_facts(11)] by blast
qed

end
